theory Spec2Isabelle
  imports Main
begin

section \<open>Python values\<close>

text \<open>
  The values that the fields of \<^verbatim>\<open>Configuration\<close> hold and that its constructor
  receives: \<^verbatim>\<open>None\<close>, \<^verbatim>\<open>bool\<close>, \<^verbatim>\<open>int\<close> (unbounded), \<^verbatim>\<open>float\<close>, \<^verbatim>\<open>str\<close> and
  \<^verbatim>\<open>datetime.timedelta\<close>.

  A \<^verbatim>\<open>timedelta\<close> is its total number of microseconds. A \<^verbatim>\<open>float\<close> is named by its
  \<^verbatim>\<open>repr\<close> (the source only stores and compares floats, it never computes with them),
  so the literal \<^verbatim>\<open>0.95\<close> is \<open>PFloat ''0.95''\<close>. Strings are 7-bit ASCII.
\<close>

datatype timedelta = Microseconds int

datatype pyval =
    PNone
  | PBool bool
  | PInt int
  | PFloat string
  | PStr string
  | PTimedelta timedelta

text \<open>
  \<^verbatim>\<open>timedelta(...)\<close> raises \<^verbatim>\<open>OverflowError\<close> outside
  \<^verbatim>\<open>timedelta.min .. timedelta.max\<close> (\<open>-999999999\<close> days up to one microsecond less
  than \<open>1000000000\<close> days); \<open>None\<close> is that error.
\<close>

definition timedelta_min :: int where
  "timedelta_min = - 999999999 * 86400000000"

definition timedelta_max :: int where
  "timedelta_max = 1000000000 * 86400000000 - 1"

definition timedelta_of_microseconds :: "int \<Rightarrow> timedelta option" where
  "timedelta_of_microseconds us =
     (if timedelta_min \<le> us \<and> us \<le> timedelta_max then Some (Microseconds us) else None)"

definition timedelta_milliseconds :: "int \<Rightarrow> timedelta option" where
  "timedelta_milliseconds n = timedelta_of_microseconds (n * 1000)"

definition timedelta_seconds :: "int \<Rightarrow> timedelta option" where
  "timedelta_seconds n = timedelta_of_microseconds (n * 1000000)"

definition timedelta_minutes :: "int \<Rightarrow> timedelta option" where
  "timedelta_minutes n = timedelta_of_microseconds (n * 60000000)"

subsection \<open>\<^verbatim>\<open>str(value)\<close> and \<^verbatim>\<open>str.upper\<close>\<close>

definition digit_char :: "nat \<Rightarrow> char" where
  "digit_char d = char_of (of_char (CHR ''0'') + d)"

fun str_nat :: "nat \<Rightarrow> string" where
  "str_nat n = (if n < 10 then [digit_char n] else str_nat (n div 10) @ [digit_char (n mod 10)])"

declare str_nat.simps [simp del]

definition str_int :: "int \<Rightarrow> string" where
  "str_int i = (if i < 0 then CHR ''-'' # str_nat (nat (- i)) else str_nat (nat i))"

text \<open>\<^verbatim>\<open>"%02d"\<close> and \<^verbatim>\<open>"%06d"\<close> on a non-negative number.\<close>

definition zero_pad :: "nat \<Rightarrow> nat \<Rightarrow> string" where
  "zero_pad w n = replicate (w - length (str_nat n)) (CHR ''0'') @ str_nat n"

text \<open>
  \<^verbatim>\<open>timedelta.__str__\<close>: \<^verbatim>\<open>[D day[s], ]H:MM:SS[.ffffff]\<close>, where the days are the floor of
  the duration and the rest is non-negative.
\<close>

definition str_timedelta :: "timedelta \<Rightarrow> string" where
  "str_timedelta td =
     (case td of Microseconds us \<Rightarrow>
        let days = us div 86400000000;
            rest = nat (us mod 86400000000);
            seconds = rest div 1000000;
            micros = rest mod 1000000;
            s = str_nat (seconds div 3600) @ '':'' @ zero_pad 2 (seconds div 60 mod 60)
                @ '':'' @ zero_pad 2 (seconds mod 60);
            s = (if days \<noteq> 0
                 then str_int days @ '' day'' @ (if \<bar>days\<bar> \<noteq> 1 then ''s'' else '''') @ '', '' @ s
                 else s)
        in if micros \<noteq> 0 then s @ ''.'' @ zero_pad 6 micros else s)"

fun py_str :: "pyval \<Rightarrow> string" where
  "py_str PNone = ''None''"
| "py_str (PBool b) = (if b then ''True'' else ''False'')"
| "py_str (PInt i) = str_int i"
| "py_str (PFloat r) = r"
| "py_str (PStr s) = s"
| "py_str (PTimedelta td) = str_timedelta td"

definition upper_char :: "char \<Rightarrow> char" where
  "upper_char c =
     (let n = (of_char c :: nat)
      in if 97 \<le> n \<and> n \<le> 122 then char_of (n - 32) else c)"

definition upper :: "string \<Rightarrow> string" where
  "upper s = map upper_char s"

section \<open>Field declarations and their validation\<close>

text \<open>
  The type of a field, as the class body writes it: \<^verbatim>\<open>bool\<close>, \<^verbatim>\<open>int\<close>, \<^verbatim>\<open>float\<close>,
  \<^verbatim>\<open>str\<close>, \<^verbatim>\<open>timedelta\<close>, \<^verbatim>\<open>T | None\<close>, \<^verbatim>\<open>Literal[...]\<close>, the alias
  \<^verbatim>\<open>timedelta_ms\<close> of \<^verbatim>\<open>crawlee._utils.models\<close>, and
  \<^verbatim>\<open>Annotated[T, BeforeValidator(f)]\<close>.
\<close>

datatype annotation =
    TBool
  | TInt
  | TFloat
  | TStr
  | TTimedelta
  | TOptional annotation
  | TLiteral "string list"
  | TimedeltaMs
  | Before "pyval \<Rightarrow> pyval" annotation

text \<open>
  One \<^verbatim>\<open>Field(...)\<close> declaration: the attribute name, the validation aliases in the order
  of \<^verbatim>\<open>AliasChoices\<close> (a plain \<^verbatim>\<open>alias=\<close> is a single choice), the annotation and
  the default.
\<close>

record field_info =
  field_name :: string
  validation_alias :: "string list"
  annotation :: annotation
  default_value :: pyval

text \<open>
  The conversions of the validation library from a value of another type (a string of the
  environment above all) to \<^verbatim>\<open>bool\<close>, \<^verbatim>\<open>int\<close>, \<^verbatim>\<open>float\<close> and \<^verbatim>\<open>timedelta\<close>. The
  library is not part of the repository, so they are a parameter: every theorem below holds
  for all of them. \<open>None\<close> is a rejected input.
\<close>

record validators =
  lax_bool :: "pyval \<Rightarrow> bool option"
  lax_int :: "pyval \<Rightarrow> int option"
  lax_float :: "pyval \<Rightarrow> string option"
  lax_timedelta :: "pyval \<Rightarrow> timedelta option"

definition validate_int :: "validators \<Rightarrow> pyval \<Rightarrow> int option" where
  "validate_int V v = (case v of PInt n \<Rightarrow> Some n | _ \<Rightarrow> lax_int V v)"

text \<open>
  Modelled from the spec: \<^verbatim>\<open>timedelta_ms\<close> is defined in \<^verbatim>\<open>crawlee/_utils/models.py\<close>,
  which is not among the sources. The spec: a duration-from-milliseconds field is
  ``parsed as integer, converted to a duration value of that many milliseconds''.
\<close>

definition timedelta_ms :: "validators \<Rightarrow> pyval \<Rightarrow> pyval option" where
  "timedelta_ms V v =
     (case validate_int V v of
        None \<Rightarrow> None
      | Some n \<Rightarrow> map_option PTimedelta (timedelta_milliseconds n))"

text \<open>
  Validation of one input value against an annotation. A value that already has the
  field's type is kept; a string is the only valid \<^verbatim>\<open>str\<close>; a \<^verbatim>\<open>Literal\<close> accepts
  exactly its members; a \<^verbatim>\<open>BeforeValidator\<close> transforms the input first.
\<close>

fun validate :: "validators \<Rightarrow> annotation \<Rightarrow> pyval \<Rightarrow> pyval option" where
  "validate V TBool v = (case v of PBool b \<Rightarrow> Some v | _ \<Rightarrow> map_option PBool (lax_bool V v))"
| "validate V TInt v = map_option PInt (validate_int V v)"
| "validate V TFloat v = (case v of PFloat r \<Rightarrow> Some v | _ \<Rightarrow> map_option PFloat (lax_float V v))"
| "validate V TStr v = (case v of PStr s \<Rightarrow> Some v | _ \<Rightarrow> None)"
| "validate V TTimedelta v =
     (case v of PTimedelta td \<Rightarrow> Some v | _ \<Rightarrow> map_option PTimedelta (lax_timedelta V v))"
| "validate V (TOptional t) v = (if v = PNone then Some PNone else validate V t v)"
| "validate V (TLiteral xs) v =
     (case v of PStr s \<Rightarrow> if s \<in> set xs then Some v else None | _ \<Rightarrow> None)"
| "validate V TimedeltaMs v = timedelta_ms V v"
| "validate V (Before f t) v = validate V t (f v)"

section \<open>The class \<^verbatim>\<open>Configuration\<close>\<close>

text \<open>\<^verbatim>\<open>model_config = SettingsConfigDict(populate_by_name=True)\<close>\<close>

definition populate_by_name :: bool where
  "populate_by_name = True"

text \<open>The members of the \<^verbatim>\<open>Literal\<close> of \<^verbatim>\<open>log_level\<close>.\<close>

definition log_levels :: "string list" where
  "log_levels = [''DEBUG'', ''INFO'', ''WARNING'', ''ERROR'', ''CRITICAL'']"

text \<open>
  The fields, in the order of the class body. The defaults \<^verbatim>\<open>timedelta(minutes=1)\<close> and
  \<^verbatim>\<open>timedelta(seconds=1)\<close> are written in microseconds (lemma \<open>timedelta_defaults\<close>).
\<close>

definition internal_timeout :: field_info where
  "internal_timeout =
     \<lparr>field_name = ''internal_timeout'',
      validation_alias = [''crawlee_internal_timeout''],
      annotation = TOptional TTimedelta,
      default_value = PNone\<rparr>"

definition verbose_log :: field_info where
  "verbose_log =
     \<lparr>field_name = ''verbose_log'',
      validation_alias = [''crawlee_verbose_log''],
      annotation = TBool,
      default_value = PBool False\<rparr>"

definition default_browser_path :: field_info where
  "default_browser_path =
     \<lparr>field_name = ''default_browser_path'',
      validation_alias = [''apify_default_browser_path'', ''crawlee_default_browser_path''],
      annotation = TOptional TStr,
      default_value = PNone\<rparr>"

definition disable_browser_sandbox :: field_info where
  "disable_browser_sandbox =
     \<lparr>field_name = ''disable_browser_sandbox'',
      validation_alias = [''apify_disable_browser_sandbox'', ''crawlee_disable_browser_sandbox''],
      annotation = TBool,
      default_value = PBool False\<rparr>"

definition log_level :: field_info where
  "log_level =
     \<lparr>field_name = ''log_level'',
      validation_alias = [''apify_log_level'', ''crawlee_log_level''],
      annotation = Before (\<lambda>value. PStr (upper (py_str value))) (TLiteral log_levels),
      default_value = PStr ''INFO''\<rparr>"

definition default_dataset_id :: field_info where
  "default_dataset_id =
     \<lparr>field_name = ''default_dataset_id'',
      validation_alias = [''actor_default_dataset_id'', ''apify_default_dataset_id'', ''crawlee_default_dataset_id''],
      annotation = TStr,
      default_value = PStr ''default''\<rparr>"

definition default_key_value_store_id :: field_info where
  "default_key_value_store_id =
     \<lparr>field_name = ''default_key_value_store_id'',
      validation_alias = [''actor_default_key_value_store_id'', ''apify_default_key_value_store_id'', ''crawlee_default_key_value_store_id''],
      annotation = TStr,
      default_value = PStr ''default''\<rparr>"

definition default_request_queue_id :: field_info where
  "default_request_queue_id =
     \<lparr>field_name = ''default_request_queue_id'',
      validation_alias = [''actor_default_request_queue_id'', ''apify_default_request_queue_id'', ''crawlee_default_request_queue_id''],
      annotation = TStr,
      default_value = PStr ''default''\<rparr>"

definition purge_on_start :: field_info where
  "purge_on_start =
     \<lparr>field_name = ''purge_on_start'',
      validation_alias = [''apify_purge_on_start'', ''crawlee_purge_on_start''],
      annotation = TBool,
      default_value = PBool True\<rparr>"

definition write_metadata :: field_info where
  "write_metadata =
     \<lparr>field_name = ''write_metadata'',
      validation_alias = [''crawlee_write_metadata''],
      annotation = TBool,
      default_value = PBool True\<rparr>"

definition persist_storage :: field_info where
  "persist_storage =
     \<lparr>field_name = ''persist_storage'',
      validation_alias = [''apify_persist_storage'', ''crawlee_persist_storage''],
      annotation = TBool,
      default_value = PBool True\<rparr>"

definition persist_state_interval :: field_info where
  "persist_state_interval =
     \<lparr>field_name = ''persist_state_interval'',
      validation_alias = [''apify_persist_state_interval_millis'', ''crawlee_persist_state_interval_millis''],
      annotation = TimedeltaMs,
      default_value = PTimedelta (Microseconds 60000000)\<rparr>"

definition system_info_interval :: field_info where
  "system_info_interval =
     \<lparr>field_name = ''system_info_interval'',
      validation_alias = [''apify_system_info_interval_millis'', ''crawlee_system_info_interval_millis''],
      annotation = TimedeltaMs,
      default_value = PTimedelta (Microseconds 1000000)\<rparr>"

definition max_used_cpu_ratio :: field_info where
  "max_used_cpu_ratio =
     \<lparr>field_name = ''max_used_cpu_ratio'',
      validation_alias = [''apify_max_used_cpu_ratio'', ''crawlee_max_used_cpu_ratio''],
      annotation = TFloat,
      default_value = PFloat ''0.95''\<rparr>"

definition memory_mbytes :: field_info where
  "memory_mbytes =
     \<lparr>field_name = ''memory_mbytes'',
      validation_alias = [''actor_memory_mbytes'', ''apify_memory_mbytes'', ''crawlee_memory_mbytes''],
      annotation = TOptional TInt,
      default_value = PNone\<rparr>"

definition available_memory_ratio :: field_info where
  "available_memory_ratio =
     \<lparr>field_name = ''available_memory_ratio'',
      validation_alias = [''apify_available_memory_ratio'', ''crawlee_available_memory_ratio''],
      annotation = TFloat,
      default_value = PFloat ''0.25''\<rparr>"

definition storage_dir :: field_info where
  "storage_dir =
     \<lparr>field_name = ''storage_dir'',
      validation_alias = [''apify_local_storage_dir'', ''crawlee_storage_dir''],
      annotation = TStr,
      default_value = PStr ''./storage''\<rparr>"

definition chrome_executable_path :: field_info where
  "chrome_executable_path =
     \<lparr>field_name = ''chrome_executable_path'',
      validation_alias = [''apify_chrome_executable_path'', ''crawlee_chrome_executable_path''],
      annotation = TOptional TStr,
      default_value = PNone\<rparr>"

definition headless :: field_info where
  "headless =
     \<lparr>field_name = ''headless'',
      validation_alias = [''apify_headless'', ''crawlee_headless''],
      annotation = TBool,
      default_value = PBool True\<rparr>"

definition xvfb :: field_info where
  "xvfb =
     \<lparr>field_name = ''xvfb'',
      validation_alias = [''apify_xvfb'', ''crawlee_xvfb''],
      annotation = TBool,
      default_value = PBool False\<rparr>"

definition model_fields :: "field_info list" where
  "model_fields =
    [internal_timeout, verbose_log, default_browser_path, disable_browser_sandbox,
     log_level, default_dataset_id, default_key_value_store_id, default_request_queue_id,
     purge_on_start, write_metadata, persist_storage, persist_state_interval,
     system_info_interval, max_used_cpu_ratio, memory_mbytes, available_memory_ratio,
     storage_dir, chrome_executable_path, headless, xvfb]"

section \<open>Construction\<close>

text \<open>
  The constructor has two inputs: the keyword arguments of the call, a dictionary that holds
  each of its keys once, and the environment (the library folds the names of environment
  variables to lower case before it compares them). Keyword arguments are kept under the
  key they were given with, whatever it is. The environment is read field by field: the
  validation aliases are looked up in their declared order and the first one present
  supplies the field, under that alias; no other variable of the environment is read.
  The two are merged, a keyword argument taking the place of a value of the environment
  under the same key, and the result is validated. For each field the validation aliases
  are looked up in their declared order and, because of \<^verbatim>\<open>populate_by_name\<close>, the field's
  own name after them; the first key present supplies the input. A field with no key
  present takes its default, which is not validated. \<^verbatim>\<open>model_config\<close> changes nothing else
  of the settings base class, so extra input stays forbidden: every key of the merged input
  that has supplied no field is an error.
\<close>

definition lookup_keys :: "field_info \<Rightarrow> string list" where
  "lookup_keys fi = validation_alias fi @ (if populate_by_name then [field_name fi] else [])"

fun lookup_key :: "string list \<Rightarrow> (string \<rightharpoonup> pyval) \<Rightarrow> (string \<times> pyval) option" where
  "lookup_key [] d = None"
| "lookup_key (k # ks) d = (case d k of Some v \<Rightarrow> Some (k, v) | None \<Rightarrow> lookup_key ks d)"

text \<open>
  The result for one field: \<open>Inr (name, value)\<close>, or \<open>Inl (loc, input)\<close>, one line of the
  validation error, located at the key that supplied the rejected input.
\<close>

definition validate_field ::
  "validators \<Rightarrow> (string \<rightharpoonup> pyval) \<Rightarrow> field_info \<Rightarrow> (string \<times> pyval) + (string \<times> pyval)" where
  "validate_field V d fi =
     (case lookup_key (lookup_keys fi) d of
        None \<Rightarrow> Inr (field_name fi, default_value fi)
      | Some (k, v) \<Rightarrow>
          (case validate V (annotation fi) v of
             None \<Rightarrow> Inl (k, v)
           | Some tv \<Rightarrow> Inr (field_name fi, tv)))"

text \<open>
  The exceptions of this module: the validation error of the library with its lines (each a
  key of the input and the value under it: a rejected input at the key that supplied a
  field, or a forbidden extra at a key that supplied none), and the \<^verbatim>\<open>TypeError\<close> of
  \<^verbatim>\<open>get_global_configuration\<close> with its message. \<open>LookupError\<close> is the failure of a getter
  on an empty service container.
\<close>

datatype error =
    ValidationError "(string \<times> pyval) list"
  | TypeError string
  | LookupError

fun line_errors :: "('e + 'a) list \<Rightarrow> 'e list" where
  "line_errors [] = []"
| "line_errors (Inl e # rs) = e # line_errors rs"
| "line_errors (Inr a # rs) = line_errors rs"

fun validated :: "('e + 'a) list \<Rightarrow> 'a list" where
  "validated [] = []"
| "validated (Inl e # rs) = validated rs"
| "validated (Inr a # rs) = a # validated rs"

text \<open>What the environment supplies: for each field, its first alias present and the value.\<close>

definition env_settings :: "(string \<rightharpoonup> pyval) \<Rightarrow> (string \<times> pyval) list" where
  "env_settings env = List.map_filter (\<lambda>fi. lookup_key (validation_alias fi) env) model_fields"

text \<open>The merged input: the keyword arguments, then what the environment adds to them.\<close>

definition build_values :: "(string \<times> pyval) list \<Rightarrow> (string \<rightharpoonup> pyval) \<Rightarrow> (string \<times> pyval) list" where
  "build_values init_kwargs env =
     init_kwargs @ filter (\<lambda>p. map_of init_kwargs (fst p) = None) (env_settings env)"

text \<open>The keys that have supplied a field, and the entries of the input that have not.\<close>

definition used_keys :: "field_info list \<Rightarrow> (string \<rightharpoonup> pyval) \<Rightarrow> string list" where
  "used_keys fs d = map fst (List.map_filter (\<lambda>fi. lookup_key (lookup_keys fi) d) fs)"

definition extra_forbidden :: "field_info list \<Rightarrow> (string \<times> pyval) list \<Rightarrow> (string \<times> pyval) list" where
  "extra_forbidden fs state = filter (\<lambda>p. fst p \<notin> set (used_keys fs (map_of state))) state"

text \<open>
  All fields are validated and all errors collected, those of the fields and those of the
  extra keys; an instance (its \<^verbatim>\<open>__dict__\<close>, from field names to values) exists only if
  there is no error.
\<close>

definition validate_model ::
  "validators \<Rightarrow> field_info list \<Rightarrow> (string \<times> pyval) list \<Rightarrow> error + (string \<rightharpoonup> pyval)" where
  "validate_model V fs state =
     (let rs = map (validate_field V (map_of state)) fs;
          errors = line_errors rs @ extra_forbidden fs state
      in if errors = [] then Inr (map_of (validated rs))
         else Inl (ValidationError errors))"

definition Configuration_init ::
  "validators \<Rightarrow> (string \<times> pyval) list \<Rightarrow> (string \<rightharpoonup> pyval) \<Rightarrow> error + (string \<rightharpoonup> pyval)" where
  "Configuration_init V init_kwargs env =
     validate_model V model_fields (build_values init_kwargs env)"

section \<open>The global accessor\<close>

text \<open>
  Classes: \<^verbatim>\<open>Configuration\<close> and its subclasses, each with its qualified name and its base.
  A subclass is constructed from the same input by the inherited constructor; what its body
  adds is not modelled.
\<close>

datatype pyclass = Configuration | Subclass string pyclass

fun issubclass :: "pyclass \<Rightarrow> pyclass \<Rightarrow> bool" where
  "issubclass Configuration c = (c = Configuration)"
| "issubclass (Subclass n b) c = (c = Subclass n b \<or> issubclass b c)"

fun class_name :: "pyclass \<Rightarrow> string" where
  "class_name Configuration = ''crawlee.configuration.Configuration''"
| "class_name (Subclass n b) = n"

text \<open>\<^verbatim>\<open>str(cls)\<close>, as the f-string of the error message formats a class.\<close>

definition class_repr :: "pyclass \<Rightarrow> string" where
  "class_repr c = ''<class '' @ [CHR 0x27] @ class_name c @ [CHR 0x27] @ ''>''"

text \<open>
  An object: its identity (what \<^verbatim>\<open>is\<close> compares), its \<^verbatim>\<open>__class__\<close> and its
  \<^verbatim>\<open>__dict__\<close>. The interpreter state: the number of objects constructed so far (the next
  fresh identity), the configuration held by \<^verbatim>\<open>service_container\<close>, and the environment.
\<close>

record obj =
  ident :: nat
  obj_class :: pyclass
  obj_dict :: "string \<rightharpoonup> pyval"

record state =
  allocated :: nat
  services :: "obj option"
  environ :: "string \<rightharpoonup> pyval"

definition isinstance :: "obj \<Rightarrow> pyclass \<Rightarrow> bool" where
  "isinstance x c = issubclass (obj_class x) c"

text \<open>
  \<^verbatim>\<open>cls()\<close>, a construction with no keyword argument, from the environment alone: a failed
  validation raises and constructs nothing.
\<close>

definition new :: "validators \<Rightarrow> pyclass \<Rightarrow> state \<Rightarrow> (error + obj) \<times> state" where
  "new V c s =
     (case Configuration_init V [] (environ s) of
        Inl e \<Rightarrow> (Inl e, s)
      | Inr d \<Rightarrow>
          (Inr \<lparr>ident = allocated s, obj_class = c, obj_dict = d\<rparr>,
           s\<lparr>allocated := Suc (allocated s)\<rparr>))"

text \<open>
  Modelled from the spec: the module \<^verbatim>\<open>crawlee.service_container\<close> is not among the
  sources. The spec: a process-wide handle ``holding at most one active Configuration
  Instance'', absent at process start; a setter that installs an instance as the global
  instance, ``the last write winning''; a getter. The spec does not say what the getter does
  on an empty handle: here it fails, and \<open>get_global_configuration\<close> never calls it so.
\<close>

definition get_configuration_if_set :: "state \<Rightarrow> obj option" where
  "get_configuration_if_set s = services s"

definition set_configuration :: "obj \<Rightarrow> state \<Rightarrow> state" where
  "set_configuration x s = s\<lparr>services := Some x\<rparr>"

definition get_configuration :: "state \<Rightarrow> error + obj" where
  "get_configuration s = (case services s of None \<Rightarrow> Inl LookupError | Some x \<Rightarrow> Inr x)"

definition mismatch_message :: "pyclass \<Rightarrow> obj \<Rightarrow> string" where
  "mismatch_message c global_instance =
     ''Requested global configuration object of type '' @ class_repr c @ '', but ''
     @ class_repr (obj_class global_instance) @ '' was found''"

text \<open>The last two statements of the accessor: the getter and the type check.\<close>

definition get_and_check :: "pyclass \<Rightarrow> state \<Rightarrow> error + obj" where
  "get_and_check c s =
     (case get_configuration s of
        Inl e \<Rightarrow> Inl e
      | Inr global_instance \<Rightarrow>
          if \<not> isinstance global_instance c
          then Inl (TypeError (mismatch_message c global_instance))
          else Inr global_instance)"

definition get_global_configuration ::
  "validators \<Rightarrow> pyclass \<Rightarrow> state \<Rightarrow> (error + obj) \<times> state" where
  "get_global_configuration V c s =
     (if get_configuration_if_set s = None
      then (case new V c s of
              (Inl e, s') \<Rightarrow> (Inl e, s')
            | (Inr x, s') \<Rightarrow> (get_and_check c (set_configuration x s'), set_configuration x s'))
      else (get_and_check c s, s))"

text \<open>The state at process start, and a sequence of calls, one after the other.\<close>

definition process_start :: "(string \<rightharpoonup> pyval) \<Rightarrow> state" where
  "process_start env = \<lparr>allocated = 0, services = None, environ = env\<rparr>"

fun calls :: "validators \<Rightarrow> pyclass list \<Rightarrow> state \<Rightarrow> (error + obj) list \<times> state" where
  "calls V [] s = ([], s)"
| "calls V (c # cs) s =
     (case get_global_configuration V c s of
        (r, s') \<Rightarrow> (case calls V cs s' of (rs, s'') \<Rightarrow> (r # rs, s'')))"

subsection \<open>Threads\<close>

text \<open>
  A thread inside \<open>get_global_configuration\<close> is before one of its statements: the test of
  line 215, the construction and the store of line 216 (the argument \<^verbatim>\<open>cls()\<close> is evaluated
  before \<^verbatim>\<open>set_configuration\<close> is called), the getter and type check of lines 218-225, or it
  has finished. The source takes no lock, so another thread may run between any two of them.
\<close>

datatype thread =
    AtTest pyclass
  | AtNew pyclass
  | AtSet pyclass obj
  | AtGet pyclass
  | Finished "error + obj"

fun step :: "validators \<Rightarrow> thread \<Rightarrow> state \<Rightarrow> thread \<times> state" where
  "step V (AtTest c) s = (if get_configuration_if_set s = None then (AtNew c, s) else (AtGet c, s))"
| "step V (AtNew c) s =
     (case new V c s of (Inl e, s') \<Rightarrow> (Finished (Inl e), s') | (Inr x, s') \<Rightarrow> (AtSet c x, s'))"
| "step V (AtSet c x) s = (AtGet c, set_configuration x s)"
| "step V (AtGet c) s = (Finished (get_and_check c s), s)"
| "step V (Finished r) s = (Finished r, s)"

text \<open>A schedule names, step by step, the thread that runs next.\<close>

fun run :: "validators \<Rightarrow> nat list \<Rightarrow> thread list \<Rightarrow> state \<Rightarrow> thread list \<times> state" where
  "run V [] ts s = (ts, s)"
| "run V (i # sched) ts s =
     (if i < length ts
      then (case step V (ts ! i) s of (t, s') \<Rightarrow> run V sched (ts[i := t]) s')
      else run V sched ts s)"

text \<open>The serial schedule: each of \<open>n\<close> threads runs its four steps before the next starts.\<close>

definition serial :: "nat \<Rightarrow> nat list" where
  "serial n = concat (map (\<lambda>i. replicate 4 i) [0..<n])"

text \<open>What a thread has returned to its caller, if it has returned.\<close>

fun returned :: "thread \<Rightarrow> obj option" where
  "returned (Finished (Inr x)) = Some x"
| "returned t = None"

section \<open>Validators for evaluation\<close>

text \<open>
  An instance of the conversions, to evaluate the model on concrete inputs: a string of
  decimal digits with an optional minus sign converts to an \<^verbatim>\<open>int\<close>, nothing else converts.
\<close>

definition digit_of :: "char \<Rightarrow> nat option" where
  "digit_of c =
     (let n = (of_char c :: nat) in if 48 \<le> n \<and> n \<le> 57 then Some (n - 48) else None)"

fun nat_of_digits :: "nat \<Rightarrow> string \<Rightarrow> nat option" where
  "nat_of_digits acc [] = Some acc"
| "nat_of_digits acc (c # cs) =
     (case digit_of c of None \<Rightarrow> None | Some d \<Rightarrow> nat_of_digits (10 * acc + d) cs)"

definition int_of_str :: "string \<Rightarrow> int option" where
  "int_of_str s =
     (case s of
        [] \<Rightarrow> None
      | c # cs \<Rightarrow>
          if c = CHR ''-''
          then (if cs = [] then None else map_option (\<lambda>n. - int n) (nat_of_digits 0 cs))
          else map_option int (nat_of_digits 0 s))"

definition decimal_validators :: validators where
  "decimal_validators =
     \<lparr>lax_bool = (\<lambda>v. None),
      lax_int = (\<lambda>v. case v of PStr s \<Rightarrow> int_of_str s | _ \<Rightarrow> None),
      lax_float = (\<lambda>v. None),
      lax_timedelta = (\<lambda>v. None)\<rparr>"

section \<open>Properties of the field table and of validation\<close>

lemmas field_defs =
  internal_timeout_def verbose_log_def default_browser_path_def disable_browser_sandbox_def
  log_level_def default_dataset_id_def default_key_value_store_id_def
  default_request_queue_id_def purge_on_start_def write_metadata_def persist_storage_def
  persist_state_interval_def system_info_interval_def max_used_cpu_ratio_def
  memory_mbytes_def available_memory_ratio_def storage_dir_def chrome_executable_path_def
  headless_def xvfb_def

lemma lookup_key_None: "lookup_key ks d = None \<longleftrightarrow> (\<forall>k\<in>set ks. d k = None)"
  by (induction ks) (auto split: option.splits)

lemma lookup_key_Some: "lookup_key ks d = Some (k, v) \<Longrightarrow> k \<in> set ks \<and> d k = Some v"
  by (induction ks) (auto split: option.splits)

lemma validate_field_name: "validate_field V d fi = Inr (n, tv) \<Longrightarrow> n = field_name fi"
  by (auto simp: validate_field_def split: option.splits prod.splits)

lemma line_errors_Nil: "line_errors rs = [] \<Longrightarrow> r \<in> set rs \<Longrightarrow> \<exists>a. r = Inr a"
  by (induction rs rule: line_errors.induct) auto

lemma line_errors_mem: "Inl e \<in> set rs \<Longrightarrow> e \<in> set (line_errors rs)"
  by (induction rs rule: line_errors.induct) auto

lemma validated_mem: "a \<in> set (validated rs) \<longleftrightarrow> Inr a \<in> set rs"
  by (induction rs rule: validated.induct) auto

lemma validated_unique:
  assumes "distinct (map field_name fs)"
  shows "distinct (map fst (validated (map (validate_field V d) fs)))"
  using assms
proof (induction fs)
  case Nil
  then show ?case by simp
next
  case (Cons f fs)
  show ?case
  proof (cases "validate_field V d f")
    case (Inl e)
    with Cons show ?thesis by simp
  next
    case (Inr p)
    obtain n tv where p: "p = (n, tv)" by (cases p)
    with Inr have n: "n = field_name f" by (auto dest: validate_field_name)
    have "n \<notin> fst ` set (validated (map (validate_field V d) fs))"
    proof
      assume "n \<in> fst ` set (validated (map (validate_field V d) fs))"
      then obtain tv' where "(n, tv') \<in> set (validated (map (validate_field V d) fs))"
        by auto
      then obtain g where g: "g \<in> set fs" "validate_field V d g = Inr (n, tv')"
        by (auto simp: validated_mem)
      then have "field_name g = n" by (auto dest: validate_field_name)
      with g n Cons.prems show False by (metis distinct.simps(2) image_eqI list.simps(9) set_map)
    qed
    with Cons Inr p show ?thesis by simp
  qed
qed

lemma validate_model_Inr:
  assumes "validate_model V fs state = Inr inst" "distinct (map field_name fs)" "fi \<in> set fs"
  shows "\<exists>tv. validate_field V (map_of state) fi = Inr (field_name fi, tv)
     \<and> inst (field_name fi) = Some tv"
proof -
  let ?rs = "map (validate_field V (map_of state)) fs"
  from assms(1) have ok: "line_errors ?rs = []" and inst: "inst = map_of (validated ?rs)"
    by (auto simp: validate_model_def Let_def split: if_splits)
  from assms(3) have "validate_field V (map_of state) fi \<in> set ?rs" by simp
  with ok obtain p where p: "validate_field V (map_of state) fi = Inr p"
    using line_errors_Nil by blast
  obtain n tv where "p = (n, tv)" by (cases p)
  with p have r: "validate_field V (map_of state) fi = Inr (field_name fi, tv)"
    using validate_field_name by blast
  with assms(3) have "(field_name fi, tv) \<in> set (validated ?rs)"
    by (force simp: validated_mem)
  with validated_unique [OF assms(2)] have "map_of (validated ?rs) (field_name fi) = Some tv"
    by simp
  with r inst show ?thesis by simp
qed

lemma validate_model_Inl:
  assumes "fi \<in> set fs" "validate_field V (map_of state) fi = Inl e"
  shows "\<exists>errs. validate_model V fs state = Inl (ValidationError errs) \<and> e \<in> set errs"
proof -
  let ?rs = "map (validate_field V (map_of state)) fs"
  from assms have "Inl e \<in> set ?rs" by force
  then have "e \<in> set (line_errors ?rs)" by (rule line_errors_mem)
  moreover from this have "line_errors ?rs \<noteq> []" by auto
  ultimately show ?thesis by (simp add: validate_model_def Let_def)
qed

lemma line_errors_all_Inr: "\<forall>r\<in>set rs. \<exists>a. r = Inr a \<Longrightarrow> line_errors rs = []"
  by (induction rs rule: line_errors.induct) auto

lemma validate_model_returns:
  assumes "\<forall>g\<in>set fs. \<exists>a. validate_field V (map_of state) g = Inr a"
    and "extra_forbidden fs state = []"
  shows "\<exists>inst. validate_model V fs state = Inr inst"
proof -
  from assms(1) have "line_errors (map (validate_field V (map_of state)) fs) = []"
    by (intro line_errors_all_Inr) auto
  with assms(2) show ?thesis by (simp add: validate_model_def)
qed

lemma model_field_names:
  "map field_name model_fields =
     [''internal_timeout'', ''verbose_log'', ''default_browser_path'',
      ''disable_browser_sandbox'', ''log_level'', ''default_dataset_id'',
      ''default_key_value_store_id'', ''default_request_queue_id'', ''purge_on_start'',
      ''write_metadata'', ''persist_storage'', ''persist_state_interval'',
      ''system_info_interval'', ''max_used_cpu_ratio'', ''memory_mbytes'',
      ''available_memory_ratio'', ''storage_dir'', ''chrome_executable_path'', ''headless'',
      ''xvfb'']"
  by (simp add: model_fields_def field_defs)

lemma names_distinct: "distinct (map field_name model_fields)"
  unfolding model_field_names by simp

lemma keys_distinct: "distinct (concat (map lookup_keys model_fields))"
  by (simp add: model_fields_def field_defs lookup_keys_def populate_by_name_def)

lemma validate_field_found:
  "lookup_key (lookup_keys fi) d = Some (k, v) \<Longrightarrow>
   validate_field V d fi =
     (case validate V (annotation fi) v of
        None \<Rightarrow> Inl (k, v)
      | Some tv \<Rightarrow> Inr (field_name fi, tv))"
  by (simp add: validate_field_def)

lemma validate_field_default:
  "\<forall>k\<in>set (lookup_keys fi). d k = None \<Longrightarrow>
   validate_field V d fi = Inr (field_name fi, default_value fi)"
proof -
  assume "\<forall>k\<in>set (lookup_keys fi). d k = None"
  then have "lookup_key (lookup_keys fi) d = None" by (simp add: lookup_key_None)
  then show ?thesis by (simp add: validate_field_def)
qed

lemma concat_key_unique:
  "distinct (concat (map f xs)) \<Longrightarrow> x \<in> set xs \<Longrightarrow> y \<in> set xs \<Longrightarrow>
   k \<in> set (f x) \<Longrightarrow> k \<in> set (f y) \<Longrightarrow> x = y"
  by (induction xs) auto

lemma key_owner:
  "fi \<in> set model_fields \<Longrightarrow> g \<in> set model_fields \<Longrightarrow>
   k \<in> set (lookup_keys fi) \<Longrightarrow> k \<in> set (lookup_keys g) \<Longrightarrow> fi = g"
  using concat_key_unique [OF keys_distinct] by blast

lemma alias_is_key: "k \<in> set (validation_alias fi) \<Longrightarrow> k \<in> set (lookup_keys fi)"
  by (simp add: lookup_keys_def)

lemma name_is_key: "field_name fi \<in> set (lookup_keys fi)"
  by (simp add: lookup_keys_def populate_by_name_def)

subsection \<open>The merged input\<close>

lemma lookup_key_cong:
  "(\<And>k. k \<in> set ks \<Longrightarrow> d k = d' k) \<Longrightarrow> lookup_key ks d = lookup_key ks d'"
  by (induction ks) (auto split: option.splits)

lemma lookup_key_only:
  "k0 \<in> set ks \<Longrightarrow> d k0 = Some v0 \<Longrightarrow> \<forall>k\<in>set ks. k \<noteq> k0 \<longrightarrow> d k = None \<Longrightarrow>
   lookup_key ks d = Some (k0, v0)"
proof (induction ks)
  case Nil
  then show ?case by simp
next
  case (Cons a ks)
  show ?case
  proof (cases "a = k0")
    case True
    with Cons.prems show ?thesis by simp
  next
    case False
    with Cons.prems have "d a = None" "k0 \<in> set ks" by auto
    with Cons show ?thesis by simp
  qed
qed

lemma map_of_build_values:
  "map_of (build_values init_kwargs env) k =
     (case map_of init_kwargs k of
        Some v \<Rightarrow> Some v
      | None \<Rightarrow> map_of (env_settings env) k)"
proof -
  have "map_of (filter (\<lambda>p. map_of init_kwargs (fst p) = None) (env_settings env)) k =
      (if map_of init_kwargs k = None then map_of (env_settings env) k else None)"
    by (simp add: map_of_filter [of "\<lambda>k. map_of init_kwargs k = None"] restrict_map_def)
  then show ?thesis
    by (auto simp: build_values_def map_add_def split: option.splits)
qed

lemma map_filter_mem: "y \<in> set (List.map_filter f xs) \<longleftrightarrow> (\<exists>x\<in>set xs. f x = Some y)"
  by (induction xs) (auto split: option.splits)

lemma env_settings_mem:
  "(k, v) \<in> set (env_settings env) \<longleftrightarrow>
     (\<exists>g\<in>set model_fields. lookup_key (validation_alias g) env = Some (k, v))"
  by (simp add: env_settings_def map_filter_mem)

lemma map_of_env_settings:
  assumes "g \<in> set model_fields" "k \<in> set (lookup_keys g)"
  shows "map_of (env_settings env) k =
     (case lookup_key (validation_alias g) env of
        None \<Rightarrow> None
      | Some (k', v) \<Rightarrow> if k' = k then Some v else None)"
proof (cases "map_of (env_settings env) k")
  case None
  have "lookup_key (validation_alias g) env \<noteq> Some (k, v)" for v
  proof
    assume "lookup_key (validation_alias g) env = Some (k, v)"
    with assms(1) have "(k, v) \<in> set (env_settings env)"
      by (auto simp: env_settings_mem)
    with None show False
      by (auto dest: weak_map_of_SomeI)
  qed
  with None show ?thesis
    by (auto split: option.splits)
next
  case (Some v)
  then have "(k, v) \<in> set (env_settings env)"
    by (rule map_of_SomeD)
  then obtain h where h: "h \<in> set model_fields" "lookup_key (validation_alias h) env = Some (k, v)"
    by (auto simp: env_settings_mem)
  then have "k \<in> set (lookup_keys h)"
    by (auto dest: lookup_key_Some alias_is_key)
  with assms h(1) have "h = g"
    using key_owner by blast
  with h(2) Some show ?thesis by simp
qed

lemma lookup_merged:
  assumes "g \<in> set model_fields" "\<forall>k\<in>set (lookup_keys g). map_of init_kwargs k = None"
  shows "lookup_key (lookup_keys g) (map_of (build_values init_kwargs env))
     = lookup_key (validation_alias g) env"
proof -
  let ?found = "lookup_key (validation_alias g) env"
  let ?d = "\<lambda>k. case ?found of None \<Rightarrow> None | Some (k', v) \<Rightarrow> if k' = k then Some v else None"
  have "map_of (build_values init_kwargs env) k = ?d k" if "k \<in> set (lookup_keys g)" for k
    using that assms by (simp add: map_of_build_values map_of_env_settings)
  then have eq: "lookup_key (lookup_keys g) (map_of (build_values init_kwargs env))
      = lookup_key (lookup_keys g) ?d"
    by (rule lookup_key_cong)
  show ?thesis
  proof (cases ?found)
    case None
    then have "\<forall>k\<in>set (lookup_keys g). ?d k = None"
      by simp
    then have "lookup_key (lookup_keys g) ?d = None"
      by (rule lookup_key_None [THEN iffD2])
    with eq None show ?thesis by simp
  next
    case (Some p)
    obtain k0 v0 where p: "p = (k0, v0)" by (cases p)
    with Some have "k0 \<in> set (lookup_keys g)"
      by (auto dest: lookup_key_Some alias_is_key)
    then have "lookup_key (lookup_keys g) ?d = Some (k0, v0)"
      using Some p by (intro lookup_key_only) auto
    with eq Some p show ?thesis by simp
  qed
qed

lemma lookup_env:
  "g \<in> set model_fields \<Longrightarrow>
   lookup_key (lookup_keys g) (map_of (build_values [] env)) = lookup_key (validation_alias g) env"
  by (rule lookup_merged) simp_all

lemma build_values_env: "build_values [] env = env_settings env"
  by (simp add: build_values_def)

lemma no_extra_env: "extra_forbidden model_fields (build_values [] env) = []"
proof -
  have "fst p \<in> set (used_keys model_fields (map_of (env_settings env)))"
    if "p \<in> set (env_settings env)" for p
  proof -
    obtain k v where p: "p = (k, v)" by (cases p)
    with that obtain g where g: "g \<in> set model_fields"
      "lookup_key (validation_alias g) env = Some (k, v)"
      by (auto simp: env_settings_mem)
    with lookup_merged [of g "[]" env]
    have "lookup_key (lookup_keys g) (map_of (env_settings env)) = Some (k, v)"
      by (simp add: build_values_env)
    with g(1) have "(k, v) \<in> set (List.map_filter
        (\<lambda>fi. lookup_key (lookup_keys fi) (map_of (env_settings env))) model_fields)"
      by (auto simp: map_filter_mem)
    then show ?thesis
      unfolding used_keys_def p by force
  qed
  then show ?thesis
    by (simp add: extra_forbidden_def build_values_env filter_empty_conv)
qed

lemma Configuration_init_Inr:
  assumes "Configuration_init V init_kwargs env = Inr inst" "fi \<in> set model_fields"
  shows "\<exists>tv. validate_field V (map_of (build_values init_kwargs env)) fi = Inr (field_name fi, tv)
     \<and> inst (field_name fi) = Some tv"
  using assms validate_model_Inr [OF _ names_distinct] by (simp add: Configuration_init_def)

lemma Configuration_init_Inl:
  assumes "fi \<in> set model_fields"
    "validate_field V (map_of (build_values init_kwargs env)) fi = Inl e"
  shows "\<exists>errs. Configuration_init V init_kwargs env = Inl (ValidationError errs) \<and> e \<in> set errs"
  using validate_model_Inl [OF assms] by (simp add: Configuration_init_def)

lemma resolved_value:
  assumes "fi \<in> set model_fields"
    "lookup_key (lookup_keys fi) (map_of (build_values init_kwargs env)) = Some (k, v)"
    "Configuration_init V init_kwargs env = Inr inst"
  shows "inst (field_name fi) = validate V (annotation fi) v \<and> validate V (annotation fi) v \<noteq> None"
proof -
  from assms(3,1) obtain tv where
    "validate_field V (map_of (build_values init_kwargs env)) fi = Inr (field_name fi, tv)"
    "inst (field_name fi) = Some tv"
    using Configuration_init_Inr by blast
  with validate_field_found [OF assms(2), of V] show ?thesis
    by (auto split: option.splits)
qed

lemma validate_field_env:
  assumes "g \<in> set model_fields"
  shows "validate_field V (map_of (build_values [] env)) g =
     (case lookup_key (validation_alias g) env of
        None \<Rightarrow> Inr (field_name g, default_value g)
      | Some (k, v) \<Rightarrow>
          (case validate V (annotation g) v of
             None \<Rightarrow> Inl (k, v)
           | Some tv \<Rightarrow> Inr (field_name g, tv)))"
  using lookup_merged [OF assms, of "[]" env] by (simp add: validate_field_def)

lemma Configuration_init_env_returns:
  assumes "\<forall>g\<in>set model_fields. \<exists>a. validate_field V (map_of (build_values [] env)) g = Inr a"
  shows "\<exists>inst. Configuration_init V [] env = Inr inst"
  unfolding Configuration_init_def using assms no_extra_env by (rule validate_model_returns)

lemma one_field_env_constructs:
  assumes "fi \<in> set model_fields" "\<forall>k. env k \<noteq> None \<longrightarrow> k \<in> set (validation_alias fi)"
    "lookup_key (validation_alias fi) env = Some (k, v)" "validate V (annotation fi) v = Some tv"
  shows "\<exists>inst. Configuration_init V [] env = Inr inst \<and> inst (field_name fi) = Some tv"
proof -
  have "\<exists>a. validate_field V (map_of (build_values [] env)) g = Inr a"
    if g: "g \<in> set model_fields" for g
  proof (cases "g = fi")
    case True
    with assms show ?thesis by (simp add: validate_field_env)
  next
    case False
    have "env k' = None" if "k' \<in> set (validation_alias g)" for k'
    proof (rule ccontr)
      assume "env k' \<noteq> None"
      with assms(2) have "k' \<in> set (validation_alias fi)" by blast
      with that assms(1) g have "fi = g"
        using key_owner alias_is_key by blast
      with False show False by simp
    qed
    then have "lookup_key (validation_alias g) env = None"
      by (simp add: lookup_key_None)
    with g show ?thesis by (simp add: validate_field_env)
  qed
  then obtain inst where inst: "Configuration_init V [] env = Inr inst"
    using Configuration_init_env_returns by blast
  from assms(1,3) have "lookup_key (lookup_keys fi) (map_of (build_values [] env)) = Some (k, v)"
    by (simp add: lookup_merged)
  from resolved_value [OF assms(1) this inst] assms(4) have "inst (field_name fi) = Some tv"
    by simp
  with inst show ?thesis by blast
qed

lemma lookup_key_empty: "lookup_key ks Map.empty = None"
  by (simp add: lookup_key_None)

lemma env_settings_empty: "env_settings Map.empty = []"
proof -
  have "List.map_filter (\<lambda>fi. lookup_key (validation_alias fi) Map.empty) fs = []" for fs
    by (induction fs) (simp_all add: lookup_key_empty)
  then show ?thesis by (simp add: env_settings_def)
qed

lemma build_values_kwargs: "build_values init_kwargs Map.empty = init_kwargs"
  by (simp add: build_values_def env_settings_empty)

lemma validate_model_defaults:
  assumes "\<forall>fi\<in>set fs. validate_field V (map_of state) fi = Inr (field_name fi, default_value fi)"
    and "extra_forbidden fs state = []"
  shows "validate_model V fs state = Inr (map_of (map (\<lambda>fi. (field_name fi, default_value fi)) fs))"
proof -
  let ?ok = "\<lambda>fi. Inr (field_name fi, default_value fi) :: (string \<times> pyval) + (string \<times> pyval)"
  from assms(1) have eq: "map (validate_field V (map_of state)) fs = map ?ok fs"
    by (intro map_cong refl) simp
  have none: "line_errors (map ?ok fs) = []"
    by (induction fs) simp_all
  have all: "validated (map ?ok fs) = map (\<lambda>fi. (field_name fi, default_value fi)) fs"
    by (induction fs) simp_all
  show ?thesis
    unfolding validate_model_def Let_def eq none all assms(2) by simp
qed

lemma Configuration_init_empty:
  "Configuration_init V [] Map.empty
     = Inr (map_of (map (\<lambda>fi. (field_name fi, default_value fi)) model_fields))"
  unfolding Configuration_init_def
  by (rule validate_model_defaults) (simp_all add: validate_field_env lookup_key_empty no_extra_env)

lemma lookup_key_single: "k \<in> set ks \<Longrightarrow> lookup_key ks [k \<mapsto> v] = Some (k, v)"
  by (induction ks) auto

lemma single_key_others_default:
  assumes "fi \<in> set model_fields" "k \<in> set (lookup_keys fi)" "g \<in> set model_fields" "g \<noteq> fi"
  shows "validate_field V [k \<mapsto> v] g = Inr (field_name g, default_value g)"
proof -
  have "k \<notin> set (lookup_keys g)"
    using assms key_owner by blast
  then have "\<forall>k'\<in>set (lookup_keys g). [k \<mapsto> v] k' = None"
    by auto
  then show ?thesis by (rule validate_field_default)
qed

lemma single_key_constructs:
  assumes "fi \<in> set model_fields" "k \<in> set (lookup_keys fi)"
    "validate V (annotation fi) v = Some tv"
  shows "\<exists>inst. Configuration_init V [(k, v)] Map.empty = Inr inst
     \<and> inst (field_name fi) = Some tv"
proof -
  have state: "map_of (build_values [(k, v)] Map.empty) = [k \<mapsto> v]"
    by (simp add: build_values_kwargs)
  from assms(2) have found: "lookup_key (lookup_keys fi) [k \<mapsto> v] = Some (k, v)"
    by (rule lookup_key_single)
  have ok: "\<exists>a. validate_field V [k \<mapsto> v] g = Inr a" if "g \<in> set model_fields" for g
  proof (cases "g = fi")
    case True
    with validate_field_found [OF found, of V] assms(3) show ?thesis by simp
  next
    case False
    with assms(1,2) that show ?thesis
      using single_key_others_default by blast
  qed
  from assms(1) found have "(k, v) \<in> set (List.map_filter
      (\<lambda>fi. lookup_key (lookup_keys fi) [k \<mapsto> v]) model_fields)"
    by (auto simp: map_filter_mem)
  then have "k \<in> set (used_keys model_fields [k \<mapsto> v])"
    unfolding used_keys_def by force
  then have "extra_forbidden model_fields [(k, v)] = []"
    by (simp add: extra_forbidden_def)
  with ok obtain inst where inst: "Configuration_init V [(k, v)] Map.empty = Inr inst"
    using validate_model_returns [of model_fields V "[(k, v)]"]
    by (auto simp: Configuration_init_def build_values_kwargs)
  from resolved_value [OF assms(1) _ inst] found state assms(3)
  have "inst (field_name fi) = Some tv"
    by simp
  with inst show ?thesis by blast
qed

lemma not_supplied_default:
  assumes "fi \<in> set model_fields"
    "\<forall>k\<in>set (lookup_keys fi). env k = None \<and> map_of init_kwargs k = None"
  shows "validate_field V (map_of (build_values init_kwargs env)) fi
     = Inr (field_name fi, default_value fi)"
proof -
  from assms(2) have "\<forall>k\<in>set (validation_alias fi). env k = None"
    by (auto dest: alias_is_key)
  then have "lookup_key (validation_alias fi) env = None"
    by (rule lookup_key_None [THEN iffD2])
  moreover from assms(2) have "\<forall>k\<in>set (lookup_keys fi). map_of init_kwargs k = None"
    by simp
  ultimately show ?thesis
    using lookup_merged [OF assms(1), of init_kwargs env] by (simp add: validate_field_def)
qed

section \<open>Resolution of the fields\<close>

text \<open>
  Extra input is forbidden in the keyword arguments: an unknown key is an error, and so are
  the later names of a field beside its first one.
\<close>

lemma unknown_keyword_forbidden:
  "Configuration_init V [(''unknown'', PInt 1)] Map.empty
     = Inl (ValidationError [(''unknown'', PInt 1)])"
  by (simp add: Configuration_init_def build_values_kwargs validate_model_def
      extra_forbidden_def used_keys_def validate_field_def lookup_keys_def
      populate_by_name_def model_fields_def field_defs)

lemma later_alias_keywords_forbidden:
  "Configuration_init V
     [(''actor_default_dataset_id'', PStr ''first''),
      (''apify_default_dataset_id'', PStr ''second''),
      (''crawlee_default_dataset_id'', PStr ''third'')] Map.empty
   = Inl (ValidationError
       [(''apify_default_dataset_id'', PStr ''second''),
        (''crawlee_default_dataset_id'', PStr ''third'')])"
  by (simp add: Configuration_init_def build_values_kwargs validate_model_def
      extra_forbidden_def used_keys_def validate_field_def lookup_keys_def
      populate_by_name_def model_fields_def field_defs)

text \<open>
  C1. For every field declared with two or more source names, an environment that holds
  the first name resolves the field from that name's value, whatever it holds under the
  later names (the keyword arguments holding no key of the field): the field's result is
  the validation of that value, an error located at that name if the value is rejected, and
  in every instance that is constructed the field holds the validated value.
\<close>

theorem first_alias_wins:
  assumes "fi \<in> set model_fields" "validation_alias fi = a # b # rest" "env a = Some v"
    and "\<forall>k\<in>set (lookup_keys fi). map_of init_kwargs k = None"
  shows "validate_field V (map_of (build_values init_kwargs env)) fi =
           (case validate V (annotation fi) v of
              None \<Rightarrow> Inl (a, v)
            | Some tv \<Rightarrow> Inr (field_name fi, tv))
         \<and> (\<forall>inst. Configuration_init V init_kwargs env = Inr inst \<longrightarrow>
              inst (field_name fi) = validate V (annotation fi) v \<and> inst (field_name fi) \<noteq> None)"
proof -
  from assms(2,3) have "lookup_key (validation_alias fi) env = Some (a, v)"
    by simp
  with lookup_merged [OF assms(1,4), of env]
  have found: "lookup_key (lookup_keys fi) (map_of (build_values init_kwargs env)) = Some (a, v)"
    by simp
  then have r: "validate_field V (map_of (build_values init_kwargs env)) fi =
      (case validate V (annotation fi) v of None \<Rightarrow> Inl (a, v) | Some tv \<Rightarrow> Inr (field_name fi, tv))"
    by (rule validate_field_found)
  have "\<forall>inst. Configuration_init V init_kwargs env = Inr inst \<longrightarrow>
      inst (field_name fi) = validate V (annotation fi) v \<and> inst (field_name fi) \<noteq> None"
  proof (intro allI impI)
    fix inst
    assume "Configuration_init V init_kwargs env = Inr inst"
    from resolved_value [OF assms(1) found this]
    show "inst (field_name fi) = validate V (annotation fi) v \<and> inst (field_name fi) \<noteq> None"
      by simp
  qed
  with r show ?thesis by (rule conjI)
qed

theorem first_alias_wins_witness:
  "\<exists>inst. Configuration_init decimal_validators []
       [''actor_default_dataset_id'' \<mapsto> PStr ''first'',
        ''apify_default_dataset_id'' \<mapsto> PStr ''second'',
        ''crawlee_default_dataset_id'' \<mapsto> PStr ''third''] = Inr inst
     \<and> inst ''default_dataset_id'' = Some (PStr ''first'')"
proof -
  let ?env = "[''actor_default_dataset_id'' \<mapsto> PStr ''first'',
        ''apify_default_dataset_id'' \<mapsto> PStr ''second'',
        ''crawlee_default_dataset_id'' \<mapsto> PStr ''third'']"
  have m: "default_dataset_id \<in> set model_fields"
    by (simp add: model_fields_def)
  have aliases: "validation_alias default_dataset_id =
      ''actor_default_dataset_id'' # ''apify_default_dataset_id'' # [''crawlee_default_dataset_id'']"
    by (simp add: default_dataset_id_def)
  have first: "?env ''actor_default_dataset_id'' = Some (PStr ''first'')"
    by simp
  have only: "\<forall>k. ?env k \<noteq> None \<longrightarrow> k \<in> set (validation_alias default_dataset_id)"
    unfolding aliases by simp
  have found: "lookup_key (validation_alias default_dataset_id) ?env
      = Some (''actor_default_dataset_id'', PStr ''first'')"
    unfolding aliases by simp
  have valid: "validate decimal_validators (annotation default_dataset_id) (PStr ''first'')
      = Some (PStr ''first'')"
    by (simp add: default_dataset_id_def)
  from one_field_env_constructs [OF m only found valid]
  obtain inst where inst: "Configuration_init decimal_validators [] ?env = Inr inst"
    by blast
  have "\<forall>k\<in>set (lookup_keys default_dataset_id). map_of ([] :: (string \<times> pyval) list) k = None"
    by simp
  from first_alias_wins [where fi = default_dataset_id and env = ?env and init_kwargs = "[]"
      and V = decimal_validators, OF m aliases first this] inst valid
  have "inst (field_name default_dataset_id) = Some (PStr ''first'')"
    by simp
  then have "inst ''default_dataset_id'' = Some (PStr ''first'')"
    by (simp add: default_dataset_id_def)
  with inst show ?thesis by blast
qed

lemma declared_defaults:
  "map (\<lambda>fi. (field_name fi, default_value fi)) model_fields =
     [(''internal_timeout'', PNone),
      (''verbose_log'', PBool False),
      (''default_browser_path'', PNone),
      (''disable_browser_sandbox'', PBool False),
      (''log_level'', PStr ''INFO''),
      (''default_dataset_id'', PStr ''default''),
      (''default_key_value_store_id'', PStr ''default''),
      (''default_request_queue_id'', PStr ''default''),
      (''purge_on_start'', PBool True),
      (''write_metadata'', PBool True),
      (''persist_storage'', PBool True),
      (''persist_state_interval'', PTimedelta (Microseconds 60000000)),
      (''system_info_interval'', PTimedelta (Microseconds 1000000)),
      (''max_used_cpu_ratio'', PFloat ''0.95''),
      (''memory_mbytes'', PNone),
      (''available_memory_ratio'', PFloat ''0.25''),
      (''storage_dir'', PStr ''./storage''),
      (''chrome_executable_path'', PNone),
      (''headless'', PBool True),
      (''xvfb'', PBool False)]"
  by (simp add: model_fields_def field_defs)

lemma timedelta_defaults:
  "timedelta_minutes 1 = Some (Microseconds 60000000)"
  "timedelta_seconds 1 = Some (Microseconds 1000000)"
  "timedelta_milliseconds 60000 = Some (Microseconds 60000000)"
  "timedelta_milliseconds 1000 = Some (Microseconds 1000000)"
  by (simp_all add: timedelta_minutes_def timedelta_seconds_def timedelta_milliseconds_def
      timedelta_of_microseconds_def timedelta_min_def timedelta_max_def)

text \<open>
  C2. A field that is not supplied (neither the environment nor the keyword arguments hold
  one of its keys: its source names and, as \<^verbatim>\<open>populate_by_name\<close> is set, its own name)
  resolves to its declared default, and after a successful construction every field has a
  value. The declared defaults are those of \<open>declared_defaults\<close>: \<^verbatim>\<open>log_level\<close> is
  \<^verbatim>\<open>INFO\<close>, \<^verbatim>\<open>purge_on_start\<close> is true, \<^verbatim>\<open>persist_state_interval\<close> is 60000 ms,
  \<^verbatim>\<open>storage_dir\<close> is \<^verbatim>\<open>./storage\<close> and \<^verbatim>\<open>memory_mbytes\<close> is \<^verbatim>\<open>None\<close>.
\<close>

theorem defaults_when_absent:
  "(\<forall>fi\<in>set model_fields.
      (\<forall>k\<in>set (lookup_keys fi). env k = None \<and> map_of init_kwargs k = None) \<longrightarrow>
      validate_field V (map_of (build_values init_kwargs env)) fi
        = Inr (field_name fi, default_value fi))
   \<and> (\<forall>inst. Configuration_init V init_kwargs env = Inr inst \<longrightarrow>
        (\<forall>fi\<in>set model_fields.
           inst (field_name fi) \<noteq> None
           \<and> ((\<forall>k\<in>set (lookup_keys fi). env k = None \<and> map_of init_kwargs k = None) \<longrightarrow>
                inst (field_name fi) = Some (default_value fi))))"
proof -
  have "inst (field_name fi) \<noteq> None
      \<and> ((\<forall>k\<in>set (lookup_keys fi). env k = None \<and> map_of init_kwargs k = None) \<longrightarrow>
           inst (field_name fi) = Some (default_value fi))"
    if "Configuration_init V init_kwargs env = Inr inst" "fi \<in> set model_fields" for inst fi
  proof -
    from that obtain tv where
      tv: "validate_field V (map_of (build_values init_kwargs env)) fi = Inr (field_name fi, tv)"
        "inst (field_name fi) = Some tv"
      using Configuration_init_Inr by blast
    with that(2) show ?thesis by (auto simp: not_supplied_default)
  qed
  then show ?thesis by (simp add: not_supplied_default)
qed

theorem defaults_when_absent_witness:
  "\<exists>inst. Configuration_init decimal_validators [] Map.empty = Inr inst
     \<and> inst ''log_level'' = Some (PStr ''INFO'')
     \<and> inst ''purge_on_start'' = Some (PBool True)
     \<and> inst ''persist_state_interval'' = Some (PTimedelta (Microseconds 60000000))
     \<and> inst ''storage_dir'' = Some (PStr ''./storage'')
     \<and> inst ''memory_mbytes'' = Some PNone"
proof -
  obtain inst where inst: "Configuration_init decimal_validators [] Map.empty = Inr inst"
    by (simp add: Configuration_init_empty)
  have m: "log_level \<in> set model_fields" "purge_on_start \<in> set model_fields"
    "persist_state_interval \<in> set model_fields" "storage_dir \<in> set model_fields"
    "memory_mbytes \<in> set model_fields"
    by (simp_all add: model_fields_def)
  from defaults_when_absent [of Map.empty "[]" decimal_validators] inst
  have "\<forall>fi\<in>set model_fields. inst (field_name fi) = Some (default_value fi)"
    by simp
  with m have "inst (field_name log_level) = Some (default_value log_level)"
    "inst (field_name purge_on_start) = Some (default_value purge_on_start)"
    "inst (field_name persist_state_interval) = Some (default_value persist_state_interval)"
    "inst (field_name storage_dir) = Some (default_value storage_dir)"
    "inst (field_name memory_mbytes) = Some (default_value memory_mbytes)"
    by blast+
  then have "inst ''log_level'' = Some (PStr ''INFO'')"
    "inst ''purge_on_start'' = Some (PBool True)"
    "inst ''persist_state_interval'' = Some (PTimedelta (Microseconds 60000000))"
    "inst ''storage_dir'' = Some (PStr ''./storage'')"
    "inst ''memory_mbytes'' = Some PNone"
    by (simp_all add: field_defs)
  with inst show ?thesis by blast
qed

lemma single_alias_env_constructs:
  assumes "fi \<in> set model_fields" "k \<in> set (validation_alias fi)"
    "validate V (annotation fi) v = Some tv"
  shows "\<exists>inst. Configuration_init V [] [k \<mapsto> v] = Inr inst \<and> inst (field_name fi) = Some tv"
proof -
  from assms(2) have only: "\<forall>k'. [k \<mapsto> v] k' \<noteq> None \<longrightarrow> k' \<in> set (validation_alias fi)"
    by simp
  from assms(2) have found: "lookup_key (validation_alias fi) [k \<mapsto> v] = Some (k, v)"
    by (rule lookup_key_single)
  from one_field_env_constructs [OF assms(1) only found assms(3)] show ?thesis .
qed

text \<open>
  C5. The constructor accepts, for every field, an input keyed by the field's own name as
  well as one keyed by any of its source names: as a keyword argument either key alone
  supplies the field's input, which is validated in the same way, and if it is valid the
  constructor returns an instance that holds the validated value in that field; and so
  does the same constructor for a source name that is set in the environment.
\<close>

theorem populated_by_name_or_alias:
  assumes "fi \<in> set model_fields" "k = field_name fi \<or> k \<in> set (validation_alias fi)"
  shows "validate_field V [k \<mapsto> v] fi =
           (case validate V (annotation fi) v of
              None \<Rightarrow> Inl (k, v)
            | Some tv \<Rightarrow> Inr (field_name fi, tv))
         \<and> (\<forall>tv. validate V (annotation fi) v = Some tv \<longrightarrow>
               (\<exists>inst. Configuration_init V [(k, v)] Map.empty = Inr inst
                  \<and> inst (field_name fi) = Some tv))
         \<and> (\<forall>tv. k \<in> set (validation_alias fi) \<and> validate V (annotation fi) v = Some tv \<longrightarrow>
               (\<exists>inst. Configuration_init V [] [k \<mapsto> v] = Inr inst
                  \<and> inst (field_name fi) = Some tv))"
proof -
  from assms(2) have k: "k \<in> set (lookup_keys fi)"
    by (auto simp: lookup_keys_def populate_by_name_def)
  then have "lookup_key (lookup_keys fi) [k \<mapsto> v] = Some (k, v)"
    by (rule lookup_key_single)
  then have field: "validate_field V [k \<mapsto> v] fi =
      (case validate V (annotation fi) v of None \<Rightarrow> Inl (k, v) | Some tv \<Rightarrow> Inr (field_name fi, tv))"
    by (rule validate_field_found)
  have keyword: "\<forall>tv. validate V (annotation fi) v = Some tv \<longrightarrow>
      (\<exists>inst. Configuration_init V [(k, v)] Map.empty = Inr inst \<and> inst (field_name fi) = Some tv)"
    using single_key_constructs [OF assms(1) k] by blast
  have environment: "\<forall>tv. k \<in> set (validation_alias fi) \<and> validate V (annotation fi) v = Some tv \<longrightarrow>
      (\<exists>inst. Configuration_init V [] [k \<mapsto> v] = Inr inst \<and> inst (field_name fi) = Some tv)"
    using single_alias_env_constructs [OF assms(1)] by blast
  show ?thesis
    by (intro conjI) (rule field keyword environment)+
qed

theorem populated_by_name_or_alias_witness:
  "(\<exists>inst. Configuration_init decimal_validators [(''storage_dir'', PStr ''/data'')] Map.empty
        = Inr inst
       \<and> inst ''storage_dir'' = Some (PStr ''/data''))
   \<and> (\<exists>inst. Configuration_init decimal_validators [(''crawlee_storage_dir'', PStr ''/data'')]
          Map.empty = Inr inst
       \<and> inst ''storage_dir'' = Some (PStr ''/data''))
   \<and> (\<exists>inst. Configuration_init decimal_validators [] [''crawlee_storage_dir'' \<mapsto> PStr ''/data'']
        = Inr inst
       \<and> inst ''storage_dir'' = Some (PStr ''/data''))"
proof -
  have m: "storage_dir \<in> set model_fields"
    by (simp add: model_fields_def)
  have v: "validate decimal_validators (annotation storage_dir) (PStr ''/data'') = Some (PStr ''/data'')"
    by (simp add: storage_dir_def)
  have n: "field_name storage_dir = ''storage_dir''"
    and a: "''crawlee_storage_dir'' \<in> set (validation_alias storage_dir)"
    by (simp_all add: storage_dir_def)
  from populated_by_name_or_alias [OF m, of "''storage_dir''" decimal_validators "PStr ''/data''"] v n
  have 1: "\<exists>inst. Configuration_init decimal_validators [(''storage_dir'', PStr ''/data'')] Map.empty
        = Inr inst
       \<and> inst ''storage_dir'' = Some (PStr ''/data'')"
    by simp
  from populated_by_name_or_alias [OF m, of "''crawlee_storage_dir''" decimal_validators "PStr ''/data''"]
    v n a
  have 2: "(\<exists>inst. Configuration_init decimal_validators [(''crawlee_storage_dir'', PStr ''/data'')]
          Map.empty = Inr inst
       \<and> inst ''storage_dir'' = Some (PStr ''/data''))
   \<and> (\<exists>inst. Configuration_init decimal_validators [] [''crawlee_storage_dir'' \<mapsto> PStr ''/data'']
        = Inr inst
       \<and> inst ''storage_dir'' = Some (PStr ''/data''))"
    by simp
  from 1 2 show ?thesis by blast
qed

lemma upper_examples:
  "upper ''debug'' = ''DEBUG''" "upper ''Debug'' = ''DEBUG''" "upper ''DEBUG'' = ''DEBUG''"
  by code_simp+

lemma log_level_member: "log_level \<in> set model_fields"
  by (simp add: model_fields_def)

text \<open>
  C6. \<^verbatim>\<open>log_level\<close> turns its raw input into an upper-case string before the membership
  test in \<^verbatim>\<open>DEBUG\<close>, \<^verbatim>\<open>INFO\<close>, \<^verbatim>\<open>WARNING\<close>, \<^verbatim>\<open>ERROR\<close>, \<^verbatim>\<open>CRITICAL\<close>: the field accepts
  exactly the inputs whose upper-case form is a member, and resolves to that member. So
  every casing of a member name is accepted; \<^verbatim>\<open>debug\<close>, \<^verbatim>\<open>Debug\<close> and \<^verbatim>\<open>DEBUG\<close> all
  resolve to \<^verbatim>\<open>DEBUG\<close>; and an instance constructed from such an input holds the member.
\<close>

theorem log_level_upper_case:
  "validate V (annotation log_level) raw =
     (if upper (py_str raw) \<in> set log_levels then Some (PStr (upper (py_str raw))) else None)
   \<and> (\<forall>s. upper s \<in> set log_levels \<longrightarrow>
         validate V (annotation log_level) (PStr s) = Some (PStr (upper s)))
   \<and> validate V (annotation log_level) (PStr ''debug'') = Some (PStr ''DEBUG'')
   \<and> validate V (annotation log_level) (PStr ''Debug'') = Some (PStr ''DEBUG'')
   \<and> validate V (annotation log_level) (PStr ''DEBUG'') = Some (PStr ''DEBUG'')
   \<and> (\<forall>k s inst.
         lookup_key (lookup_keys log_level) (map_of (build_values init_kwargs env))
           = Some (k, PStr s)
         \<and> upper s \<in> set log_levels \<and> Configuration_init V init_kwargs env = Inr inst
         \<longrightarrow> inst ''log_level'' = Some (PStr (upper s)))"
proof -
  have v: "validate V (annotation log_level) raw =
     (if upper (py_str raw) \<in> set log_levels then Some (PStr (upper (py_str raw))) else None)"
    for raw
    by (simp add: log_level_def)
  have resolved: "\<forall>k s inst.
         lookup_key (lookup_keys log_level) (map_of (build_values init_kwargs env))
           = Some (k, PStr s)
         \<and> upper s \<in> set log_levels \<and> Configuration_init V init_kwargs env = Inr inst
         \<longrightarrow> inst ''log_level'' = Some (PStr (upper s))"
  proof (intro allI impI, elim conjE)
    fix k s inst
    assume found: "lookup_key (lookup_keys log_level) (map_of (build_values init_kwargs env))
        = Some (k, PStr s)"
      and member: "upper s \<in> set log_levels"
      and inst: "Configuration_init V init_kwargs env = Inr inst"
    from resolved_value [OF log_level_member found inst]
    have "inst (field_name log_level) = validate V (annotation log_level) (PStr s)"
      by simp
    with member show "inst ''log_level'' = Some (PStr (upper s))"
      unfolding v by (simp add: log_level_def)
  qed
  have debug: "validate V (annotation log_level) (PStr ''debug'') = Some (PStr ''DEBUG'')"
    and Debug: "validate V (annotation log_level) (PStr ''Debug'') = Some (PStr ''DEBUG'')"
    and DEBUG: "validate V (annotation log_level) (PStr ''DEBUG'') = Some (PStr ''DEBUG'')"
    unfolding v by (simp_all add: upper_examples log_levels_def)
  have casing: "\<forall>s. upper s \<in> set log_levels \<longrightarrow>
      validate V (annotation log_level) (PStr s) = Some (PStr (upper s))"
    unfolding v by simp
  show ?thesis
    by (intro conjI) (rule v casing debug Debug DEBUG resolved)+
qed

theorem log_level_upper_case_witness:
  "\<exists>inst. Configuration_init decimal_validators [] [''crawlee_log_level'' \<mapsto> PStr ''Warning'']
       = Inr inst
     \<and> inst ''log_level'' = Some (PStr ''WARNING'')"
proof -
  let ?env = "[''crawlee_log_level'' \<mapsto> PStr ''Warning'']"
  have u: "upper ''Warning'' = ''WARNING''"
    by code_simp
  then have member: "upper ''Warning'' \<in> set log_levels"
    by (simp add: log_levels_def)
  have al: "''crawlee_log_level'' \<in> set (validation_alias log_level)"
    by (simp add: log_level_def)
  have valid: "validate decimal_validators (annotation log_level) (PStr ''Warning'')
      = Some (PStr ''WARNING'')"
    using u by (simp add: log_level_def log_levels_def)
  from single_alias_env_constructs [OF log_level_member al valid]
  obtain inst where inst: "Configuration_init decimal_validators [] ?env = Inr inst"
    by blast
  have k: "lookup_key (lookup_keys log_level) (map_of (build_values [] ?env))
      = Some (''crawlee_log_level'', PStr ''Warning'')"
    unfolding lookup_env [OF log_level_member] by (simp add: log_level_def)
  with log_level_upper_case [of decimal_validators _ "[]" ?env] member inst
  have "inst ''log_level'' = Some (PStr (upper ''Warning''))"
    by blast
  with inst u show ?thesis by auto
qed

lemma timedelta_ms_in_range:
  assumes "validate_int V raw = Some n" "timedelta_min \<le> n * 1000" "n * 1000 \<le> timedelta_max"
  shows "timedelta_ms V raw = Some (PTimedelta (Microseconds (n * 1000)))"
  using assms
  by (simp add: timedelta_ms_def timedelta_milliseconds_def timedelta_of_microseconds_def)

lemma interval_members:
  "persist_state_interval \<in> set model_fields" "system_info_interval \<in> set model_fields"
  by (simp_all add: model_fields_def)

text \<open>
  C7. The two duration-in-milliseconds fields, \<^verbatim>\<open>persist_state_interval\<close> and
  \<^verbatim>\<open>system_info_interval\<close>, read their raw input as an integer count of milliseconds: an
  input that is the integer \<open>n\<close> (or converts to it) resolves to the duration of \<open>n\<close>
  milliseconds, for every \<open>n\<close> that a \<^verbatim>\<open>timedelta\<close> can hold. Raw \<open>5000\<close> is exactly
  \<^verbatim>\<open>timedelta(seconds=5)\<close>, raw \<open>0\<close> is the zero duration, and a constructed instance holds
  that duration.
\<close>

theorem interval_in_milliseconds:
  assumes "fi = persist_state_interval \<or> fi = system_info_interval"
    and "validate_int V raw = Some n"
    and "timedelta_min \<le> n * 1000" "n * 1000 \<le> timedelta_max"
  shows "validate V (annotation fi) raw = Some (PTimedelta (Microseconds (n * 1000)))
     \<and> validate V (annotation fi) (PInt 5000) = map_option PTimedelta (timedelta_seconds 5)
     \<and> validate V (annotation fi) (PInt 0) = Some (PTimedelta (Microseconds 0))
     \<and> (\<forall>init_kwargs env k inst.
           lookup_key (lookup_keys fi) (map_of (build_values init_kwargs env)) = Some (k, raw)
           \<and> Configuration_init V init_kwargs env = Inr inst
           \<longrightarrow> inst (field_name fi) = Some (PTimedelta (Microseconds (n * 1000))))"
proof -
  from assms(1) have ann: "annotation fi = TimedeltaMs"
    by (auto simp: persist_state_interval_def system_info_interval_def)
  from assms(1) have m: "fi \<in> set model_fields"
    using interval_members by auto
  have general: "validate V (annotation fi) raw = Some (PTimedelta (Microseconds (n * 1000)))"
    unfolding ann using assms(2-4) by (simp add: timedelta_ms_in_range)
  have five: "validate V (annotation fi) (PInt 5000) = map_option PTimedelta (timedelta_seconds 5)"
    unfolding ann
    by (simp add: timedelta_ms_def validate_int_def timedelta_milliseconds_def
        timedelta_seconds_def)
  have zero: "validate V (annotation fi) (PInt 0) = Some (PTimedelta (Microseconds 0))"
    unfolding ann
    by (simp add: timedelta_ms_def validate_int_def timedelta_milliseconds_def
        timedelta_of_microseconds_def timedelta_min_def timedelta_max_def)
  have resolved: "\<forall>init_kwargs env k inst.
           lookup_key (lookup_keys fi) (map_of (build_values init_kwargs env)) = Some (k, raw)
           \<and> Configuration_init V init_kwargs env = Inr inst
           \<longrightarrow> inst (field_name fi) = Some (PTimedelta (Microseconds (n * 1000)))"
  proof (intro allI impI, elim conjE)
    fix init_kwargs env k inst
    assume "lookup_key (lookup_keys fi) (map_of (build_values init_kwargs env)) = Some (k, raw)"
      "Configuration_init V init_kwargs env = Inr inst"
    from resolved_value [OF m this] general
    show "inst (field_name fi) = Some (PTimedelta (Microseconds (n * 1000)))"
      by simp
  qed
  show ?thesis
    by (intro conjI) (rule general five zero resolved)+
qed

theorem interval_in_milliseconds_witness:
  "(\<exists>inst. Configuration_init decimal_validators []
        [''apify_persist_state_interval_millis'' \<mapsto> PStr ''5000''] = Inr inst
      \<and> inst ''persist_state_interval'' = Some (PTimedelta (Microseconds 5000000)))
   \<and> timedelta_seconds 5 = Some (Microseconds 5000000)
   \<and> validate decimal_validators (annotation system_info_interval) (PInt 0)
       = Some (PTimedelta (Microseconds 0))"
proof -
  let ?V = decimal_validators
  let ?env = "[''apify_persist_state_interval_millis'' \<mapsto> PStr ''5000'']"
  have n: "validate_int ?V (PStr ''5000'') = Some 5000"
    by (simp add: validate_int_def decimal_validators_def int_of_str_def digit_of_def)
  have lo: "timedelta_min \<le> 5000 * 1000" and hi: "5000 * 1000 \<le> timedelta_max"
    by (simp_all add: timedelta_min_def timedelta_max_def)
  have n0: "validate_int ?V (PInt 0) = Some 0"
    by (simp add: validate_int_def)
  have lo0: "timedelta_min \<le> 0 * 1000" and hi0: "0 * 1000 \<le> timedelta_max"
    by (simp_all add: timedelta_min_def timedelta_max_def)
  note p = interval_in_milliseconds [of persist_state_interval ?V "PStr ''5000''" 5000,
      OF _ n lo hi]
  note q = interval_in_milliseconds [of system_info_interval ?V "PInt 0" 0, OF _ n0 lo0 hi0]
  have val: "validate ?V (annotation persist_state_interval) (PStr ''5000'')
      = Some (PTimedelta (Microseconds 5000000))"
    using p by simp
  have al: "''apify_persist_state_interval_millis'' \<in> set (validation_alias persist_state_interval)"
    by (simp add: persist_state_interval_def)
  from single_alias_env_constructs [OF interval_members(1) al val]
  obtain inst where inst: "Configuration_init ?V [] ?env = Inr inst"
    by blast
  have k: "lookup_key (lookup_keys persist_state_interval) (map_of (build_values [] ?env))
      = Some (''apify_persist_state_interval_millis'', PStr ''5000'')"
    unfolding lookup_env [OF interval_members(1)] by (simp add: persist_state_interval_def)
  with p inst have "inst (field_name persist_state_interval)
      = Some (PTimedelta (Microseconds (5000 * 1000)))"
    by blast
  then have 1: "inst ''persist_state_interval'' = Some (PTimedelta (Microseconds 5000000))"
    by (simp add: persist_state_interval_def)
  have 2: "timedelta_seconds 5 = Some (Microseconds 5000000)"
    by (simp add: timedelta_seconds_def timedelta_of_microseconds_def timedelta_min_def
        timedelta_max_def)
  from q have 3: "validate ?V (annotation system_info_interval) (PInt 0)
      = Some (PTimedelta (Microseconds 0))"
    by simp
  from inst 1 2 3 show ?thesis by blast
qed

lemma memory_mbytes_member: "memory_mbytes \<in> set model_fields"
  by (simp add: model_fields_def)

lemma memory_mbytes_numeric_example:
  "\<exists>inst. Configuration_init decimal_validators [] [''apify_memory_mbytes'' \<mapsto> PStr ''4096'']
       = Inr inst
     \<and> inst ''memory_mbytes'' = Some (PInt 4096)"
proof -
  have al: "''apify_memory_mbytes'' \<in> set (validation_alias memory_mbytes)"
    by (simp add: memory_mbytes_def)
  have val: "validate decimal_validators (annotation memory_mbytes) (PStr ''4096'') = Some (PInt 4096)"
    by (simp add: memory_mbytes_def validate_int_def decimal_validators_def int_of_str_def
        digit_of_def)
  from single_alias_env_constructs [OF memory_mbytes_member al val] show ?thesis
    by (simp add: memory_mbytes_def)
qed

text \<open>
  C8. When the input of \<^verbatim>\<open>memory_mbytes\<close>, under whichever of its keys supplies it, is a
  string that does not convert to an integer, construction raises the validation error (the
  type-coercion error of the spec) and returns no instance at all, whatever the other fields
  are given. The error has a line located at the key that supplied the string, together
  with the rejected string; that key is one of the names of \<^verbatim>\<open>memory_mbytes\<close> and of no
  other field.
\<close>

theorem memory_mbytes_not_numeric:
  assumes "lookup_key (lookup_keys memory_mbytes) (map_of (build_values init_kwargs env))
      = Some (k, PStr s)"
    and "lax_int V (PStr s) = None"
  shows "(\<exists>errs. Configuration_init V init_kwargs env = Inl (ValidationError errs)
        \<and> (k, PStr s) \<in> set errs)
     \<and> k \<in> set [''actor_memory_mbytes'', ''apify_memory_mbytes'', ''crawlee_memory_mbytes'',
                 ''memory_mbytes'']
     \<and> (\<forall>fi\<in>set model_fields. k \<in> set (lookup_keys fi) \<longrightarrow> fi = memory_mbytes)"
proof -
  have "validate V (annotation memory_mbytes) (PStr s) = None"
    using assms(2) by (simp add: memory_mbytes_def validate_int_def)
  with validate_field_found [OF assms(1), of V]
  have "validate_field V (map_of (build_values init_kwargs env)) memory_mbytes = Inl (k, PStr s)"
    by simp
  then have fails: "\<exists>errs. Configuration_init V init_kwargs env = Inl (ValidationError errs)
      \<and> (k, PStr s) \<in> set errs"
    using Configuration_init_Inl [OF memory_mbytes_member] by blast
  from assms(1) have k: "k \<in> set (lookup_keys memory_mbytes)"
    using lookup_key_Some by blast
  then have names: "k \<in> set [''actor_memory_mbytes'', ''apify_memory_mbytes'',
      ''crawlee_memory_mbytes'', ''memory_mbytes'']"
    by (simp add: lookup_keys_def memory_mbytes_def populate_by_name_def)
  from k have owner: "\<forall>fi\<in>set model_fields. k \<in> set (lookup_keys fi) \<longrightarrow> fi = memory_mbytes"
    using key_owner [OF _ memory_mbytes_member] by blast
  show ?thesis
    by (intro conjI) (rule fails names owner)+
qed

theorem memory_mbytes_not_numeric_witness:
  "\<exists>errs. Configuration_init decimal_validators []
       [''apify_memory_mbytes'' \<mapsto> PStr ''lots'', ''crawlee_storage_dir'' \<mapsto> PStr ''/data'']
       = Inl (ValidationError errs)
     \<and> (''apify_memory_mbytes'', PStr ''lots'') \<in> set errs"
proof -
  let ?env = "[''apify_memory_mbytes'' \<mapsto> PStr ''lots'', ''crawlee_storage_dir'' \<mapsto> PStr ''/data'']"
  have k: "lookup_key (lookup_keys memory_mbytes) (map_of (build_values [] ?env))
      = Some (''apify_memory_mbytes'', PStr ''lots'')"
    unfolding lookup_env [OF memory_mbytes_member] by (simp add: memory_mbytes_def)
  have n: "lax_int decimal_validators (PStr ''lots'') = None"
    by (simp add: decimal_validators_def int_of_str_def digit_of_def)
  from memory_mbytes_not_numeric [OF k n] show ?thesis
    by blast
qed

section \<open>The global accessor: type check and identity\<close>

lemma issubclass_refl: "issubclass c c"
  by (cases c) simp_all

lemma get_global_configuration_set:
  "services s = Some x \<Longrightarrow> get_global_configuration V c s = (get_and_check c s, s)"
  by (simp add: get_global_configuration_def get_configuration_if_set_def)

lemma get_and_check_set:
  "services s = Some x \<Longrightarrow>
   get_and_check c s =
     (if isinstance x c then Inr x else Inl (TypeError (mismatch_message c x)))"
  by (simp add: get_and_check_def get_configuration_def)

text \<open>
  C3. When the service container holds an instance that is not an instance of the requested
  class, \<open>get_global_configuration\<close> does not return it: it raises the \<^verbatim>\<open>TypeError\<close> of
  line 221 (the configuration-type-mismatch error of the spec), whose message contains the
  requested class and the class of the stored instance, and it leaves the state as it was.
\<close>

theorem type_mismatch_raises:
  assumes "services s = Some x" "\<not> isinstance x c"
  shows "get_global_configuration V c s =
     (Inl (TypeError
        (''Requested global configuration object of type '' @ class_repr c @ '', but ''
         @ class_repr (obj_class x) @ '' was found'')), s)"
  using assms
  by (simp add: get_global_configuration_set get_and_check_set mismatch_message_def)

theorem type_mismatch_raises_witness:
  "get_global_configuration decimal_validators (Subclass ''apify.Configuration'' Configuration)
     \<lparr>allocated = 1,
      services = Some \<lparr>ident = 0, obj_class = Configuration, obj_dict = Map.empty\<rparr>,
      environ = Map.empty\<rparr>
   = (Inl (TypeError (''Requested global configuration object of type ''
         @ ''<class '' @ [CHR 0x27] @ ''apify.Configuration'' @ [CHR 0x27] @ ''>''
         @ '', but ''
         @ ''<class '' @ [CHR 0x27] @ ''crawlee.configuration.Configuration'' @ [CHR 0x27] @ ''>''
         @ '' was found'')),
      \<lparr>allocated = 1,
       services = Some \<lparr>ident = 0, obj_class = Configuration, obj_dict = Map.empty\<rparr>,
       environ = Map.empty\<rparr>)"
proof -
  let ?x = "\<lparr>ident = 0, obj_class = Configuration, obj_dict = Map.empty\<rparr>"
  let ?s = "\<lparr>allocated = 1, services = Some ?x, environ = Map.empty\<rparr>"
  have 1: "services ?s = Some ?x" by simp
  have 2: "\<not> isinstance ?x (Subclass ''apify.Configuration'' Configuration)"
    by (simp add: isinstance_def)
  from type_mismatch_raises [OF 1 2, of decimal_validators] show ?thesis
    by (simp add: class_repr_def)
qed

text \<open>
  C10. The type check is \<^verbatim>\<open>isinstance\<close>, not equality of types: when the class of the
  stored instance is a strict subclass of the requested class, the call succeeds and
  returns the stored instance of the subclass.
\<close>

theorem subclass_instance_accepted:
  assumes "services s = Some x" "issubclass (obj_class x) c" "obj_class x \<noteq> c"
  shows "get_global_configuration V c s = (Inr x, s)"
  using assms
  by (simp add: get_global_configuration_set get_and_check_set isinstance_def)

theorem subclass_instance_accepted_witness:
  "get_global_configuration decimal_validators Configuration
     \<lparr>allocated = 1,
      services = Some \<lparr>ident = 0, obj_class = Subclass ''apify.Configuration'' Configuration,
                        obj_dict = Map.empty\<rparr>,
      environ = Map.empty\<rparr>
   = (Inr \<lparr>ident = 0, obj_class = Subclass ''apify.Configuration'' Configuration,
            obj_dict = Map.empty\<rparr>,
      \<lparr>allocated = 1,
       services = Some \<lparr>ident = 0, obj_class = Subclass ''apify.Configuration'' Configuration,
                         obj_dict = Map.empty\<rparr>,
       environ = Map.empty\<rparr>)"
proof -
  let ?x = "\<lparr>ident = 0, obj_class = Subclass ''apify.Configuration'' Configuration,
            obj_dict = Map.empty\<rparr>"
  let ?s = "\<lparr>allocated = 1, services = Some ?x, environ = Map.empty\<rparr>"
  have 1: "services ?s = Some ?x" by simp
  have 2: "issubclass (obj_class ?x) Configuration" by simp
  have 3: "obj_class ?x \<noteq> Configuration" by simp
  from subclass_instance_accepted [OF 1 2 3, of decimal_validators] show ?thesis .
qed

lemma get_and_check_Inr: "get_and_check c s = Inr y \<Longrightarrow> services s = Some y"
  by (auto simp: get_and_check_def get_configuration_def split: option.splits if_splits)

lemma get_global_configuration_unset:
  assumes "services s = None"
  shows "get_global_configuration V c s =
     (case Configuration_init V [] (environ s) of
        Inl e \<Rightarrow> (Inl e, s)
      | Inr d \<Rightarrow>
          (Inr \<lparr>ident = allocated s, obj_class = c, obj_dict = d\<rparr>,
           s\<lparr>allocated := Suc (allocated s),
             services := Some \<lparr>ident = allocated s, obj_class = c, obj_dict = d\<rparr>\<rparr>))"
  using assms
  by (simp add: get_global_configuration_def get_configuration_if_set_def new_def
      set_configuration_def get_and_check_def get_configuration_def isinstance_def
      issubclass_refl split: sum.splits)

lemma get_global_configuration_Inr:
  assumes "get_global_configuration V c s = (Inr x, s1)"
  shows "services s1 = Some x \<and> allocated s1 \<le> Suc (allocated s)
     \<and> (services s \<noteq> None \<longrightarrow> s1 = s) \<and> isinstance x c"
proof (cases "services s")
  case None
  with assms show ?thesis
    by (auto simp: get_global_configuration_unset isinstance_def issubclass_refl
        split: sum.splits)
next
  case (Some y)
  with assms show ?thesis
    by (auto simp: get_global_configuration_set get_and_check_set split: if_splits)
qed

lemma get_global_configuration_Inl:
  assumes "get_global_configuration V c s = (Inl e, s1)"
  shows "s1 = s"
proof (cases "services s")
  case None
  with assms show ?thesis
    by (auto simp: get_global_configuration_unset split: sum.splits)
next
  case (Some y)
  with assms show ?thesis
    by (simp add: get_global_configuration_set)
qed

lemma calls_set:
  "services s = Some x \<Longrightarrow> calls V cs s = (rs, s') \<Longrightarrow>
   s' = s \<and> (\<forall>y. Inr y \<in> set rs \<longrightarrow> y = x)"
proof (induction cs arbitrary: rs s')
  case Nil
  then show ?case by simp
next
  case (Cons c cs)
  obtain rs' s'' where rest: "calls V cs s = (rs', s'')"
    by (cases "calls V cs s")
  with Cons.prems have rs: "rs = get_and_check c s # rs'" and s': "s' = s''"
    by (simp_all add: get_global_configuration_set)
  from Cons.IH [OF Cons.prems(1) rest] have "s'' = s" "\<forall>y. Inr y \<in> set rs' \<longrightarrow> y = x"
    by simp_all
  moreover have "get_and_check c s = Inr y \<Longrightarrow> y = x" for y
    using Cons.prems(1) by (auto dest: get_and_check_Inr)
  ultimately show ?case using rs s' by auto
qed

lemma calls_any:
  "calls V cs s = (rs, s') \<Longrightarrow>
   allocated s' \<le> Suc (allocated s)
   \<and> (services s \<noteq> None \<longrightarrow> s' = s)
   \<and> (\<forall>x y. Inr x \<in> set rs \<and> Inr y \<in> set rs \<longrightarrow> x = y)"
proof (induction cs arbitrary: s rs s')
  case Nil
  then show ?case by simp
next
  case (Cons c cs)
  obtain r s1 where first: "get_global_configuration V c s = (r, s1)"
    by (cases "get_global_configuration V c s")
  obtain rs' s2 where rest: "calls V cs s1 = (rs', s2)"
    by (cases "calls V cs s1")
  from Cons.prems first rest have rs: "rs = r # rs'" and s': "s' = s2"
    by simp_all
  show ?case
  proof (cases r)
    case (Inl e)
    with first have "s1 = s" by (simp add: get_global_configuration_Inl)
    with Cons.IH [OF rest] rs s' Inl show ?thesis by auto
  next
    case (Inr x)
    with first have x: "services s1 = Some x" "allocated s1 \<le> Suc (allocated s)"
      "services s \<noteq> None \<longrightarrow> s1 = s"
      using get_global_configuration_Inr by blast+
    from calls_set [OF x(1) rest] have "s2 = s1" "\<forall>y. Inr y \<in> set rs' \<longrightarrow> y = x"
      by simp_all
    with x rs s' Inr show ?thesis by auto
  qed
qed

text \<open>
  C4. Calls of \<open>get_global_configuration\<close> that follow one another, with nothing that resets
  the service container in between, return the identical instance: once a call has returned
  an instance, the same call returns that very object again (the same identity) and leaves
  the state untouched, and any call that returns at all returns that object. In a sequence
  of calls the constructor runs successfully at most once, and not at all when an instance
  is already stored.
\<close>

theorem sequential_calls_same_instance:
  "(\<forall>x s1. get_global_configuration V c s = (Inr x, s1) \<longrightarrow>
       get_global_configuration V c s1 = (Inr x, s1)
       \<and> (\<forall>c' y s2. get_global_configuration V c' s1 = (Inr y, s2) \<longrightarrow> y = x \<and> s2 = s1))
   \<and> (\<forall>rs s'. calls V cs s = (rs, s') \<longrightarrow>
         allocated s' \<le> Suc (allocated s)
         \<and> (services s \<noteq> None \<longrightarrow> allocated s' = allocated s)
         \<and> (\<forall>x y. Inr x \<in> set rs \<and> Inr y \<in> set rs \<longrightarrow> x = y))"
proof (intro conjI allI impI)
  fix x s1
  assume first: "get_global_configuration V c s = (Inr x, s1)"
  then have x: "services s1 = Some x" "isinstance x c"
    using get_global_configuration_Inr by blast+
  then show "get_global_configuration V c s1 = (Inr x, s1)"
    by (simp add: get_global_configuration_set get_and_check_set)
  fix c' y s2
  assume "get_global_configuration V c' s1 = (Inr y, s2)"
  with x(1) show "y = x" "s2 = s1"
    by (auto simp: get_global_configuration_set dest: get_and_check_Inr)
next
  fix rs s'
  assume run: "calls V cs s = (rs, s')"
  from calls_any [OF run] show "allocated s' \<le> Suc (allocated s)" by simp
  from calls_any [OF run] show "allocated s' = allocated s" if "services s \<noteq> None"
    using that by simp
  fix x y
  assume "Inr x \<in> set rs \<and> Inr y \<in> set rs"
  with calls_any [OF run] show "x = y" by blast
qed

theorem sequential_calls_same_instance_witness:
  "\<exists>x s1. get_global_configuration decimal_validators Configuration (process_start Map.empty)
         = (Inr x, s1)
     \<and> get_global_configuration decimal_validators Configuration s1 = (Inr x, s1)
     \<and> allocated s1 = 1"
proof -
  let ?V = decimal_validators
  let ?s = "process_start Map.empty"
  obtain d where d: "Configuration_init ?V [] Map.empty = Inr d"
    by (simp add: Configuration_init_empty)
  let ?x = "\<lparr>ident = 0, obj_class = Configuration, obj_dict = d\<rparr>"
  let ?s1 = "\<lparr>allocated = 1, services = Some ?x, environ = Map.empty\<rparr>"
  have first: "get_global_configuration ?V Configuration ?s = (Inr ?x, ?s1)"
    using d by (simp add: get_global_configuration_unset process_start_def)
  with sequential_calls_same_instance [of ?V Configuration ?s]
  have "get_global_configuration ?V Configuration ?s1 = (Inr ?x, ?s1)"
    by blast
  with first show ?thesis by simp
qed

section \<open>The global accessor under concurrent first access\<close>

lemma run_append:
  "run V (xs @ ys) ts s = (case run V xs ts s of (ts', s') \<Rightarrow> run V ys ts' s')"
  by (induction xs arbitrary: ts s) (auto split: prod.splits)

lemma run_call:
  assumes "i < length ts" "ts ! i = AtTest c"
  shows "run V (replicate 4 i) ts s =
     (ts[i := Finished (fst (get_global_configuration V c s))],
      snd (get_global_configuration V c s))"
proof -
  have four: "replicate 4 i = [i, i, i, i]"
    by (simp add: numeral_eq_Suc)
  show ?thesis
  proof (cases "services s")
    case None
    with assms show ?thesis
      unfolding four
      by (simp add: get_global_configuration_def get_configuration_if_set_def
          split: prod.splits sum.splits)
  next
    case (Some x)
    with assms show ?thesis
      unfolding four
      by (simp add: get_global_configuration_def get_configuration_if_set_def)
  qed
qed

lemma run_serial_from:
  "calls V cs s = (rs, s') \<Longrightarrow>
   run V (concat (map (\<lambda>i. replicate 4 i) [length pre..<length pre + length cs]))
     (pre @ map AtTest cs) s = (pre @ map Finished rs, s')"
proof (induction cs arbitrary: pre s rs s')
  case Nil
  then show ?case by simp
next
  case (Cons c cs)
  obtain r s1 where first: "get_global_configuration V c s = (r, s1)"
    by (cases "get_global_configuration V c s")
  obtain rs' s2 where rest: "calls V cs s1 = (rs', s2)"
    by (cases "calls V cs s1")
  from Cons.prems first rest have rs: "rs = r # rs'" and s': "s' = s2"
    by simp_all
  let ?ts = "pre @ map AtTest (c # cs)"
  have range: "[length pre..<length pre + length (c # cs)]
      = length pre # [length (pre @ [Finished r])..<length (pre @ [Finished r]) + length cs]"
    by (simp add: upt_rec)
  have "run V (replicate 4 (length pre)) ?ts s = (?ts[length pre := Finished r], s1)"
    using run_call [of "length pre" ?ts c V s] first by simp
  moreover have "?ts[length pre := Finished r] = (pre @ [Finished r]) @ map AtTest cs"
    by (simp add: list_update_append)
  ultimately have step: "run V (replicate 4 (length pre)) ?ts s
      = ((pre @ [Finished r]) @ map AtTest cs, s1)"
    by simp
  from Cons.IH [OF rest, of "pre @ [Finished r]"] step rs s' show ?case
    unfolding range by (simp add: run_append del: replicate.simps upt_Suc)
qed

lemma run_serial:
  "calls V cs s = (rs, s') \<Longrightarrow> run V (serial (length cs)) (map AtTest cs) s = (map Finished rs, s')"
  using run_serial_from [of V cs s rs s' "[]"] by (simp add: serial_def)

lemma calls_replicate_set:
  "services s = Some x \<Longrightarrow> isinstance x c \<Longrightarrow> calls V (replicate n c) s = (replicate n (Inr x), s)"
  by (induction n) (simp_all add: get_global_configuration_set get_and_check_set)

text \<open>
  C9, as the code has it. When the first calls do not interleave, each caller running the
  accessor to its end before the next one starts (the serial schedule; this is how tasks of
  one event loop run it, as it never awaits), and the input is valid, exactly one instance
  is constructed and every caller observes that instance. The accessor takes no lock, so
  this is all that holds: threads that interleave between the test of line 215 and the store
  of line 216 each construct an instance.
\<close>

theorem serial_first_access:
  assumes "Configuration_init V [] env = Inr d" "0 < n"
  shows "run V (serial n) (replicate n (AtTest c)) (process_start env) =
     (replicate n (Finished (Inr \<lparr>ident = 0, obj_class = c, obj_dict = d\<rparr>)),
      \<lparr>allocated = 1, services = Some \<lparr>ident = 0, obj_class = c, obj_dict = d\<rparr>,
       environ = env\<rparr>)"
proof -
  let ?x = "\<lparr>ident = 0, obj_class = c, obj_dict = d\<rparr>"
  let ?s1 = "\<lparr>allocated = 1, services = Some ?x, environ = env\<rparr>"
  from assms(2) obtain m where n: "n = Suc m"
    by (cases n) auto
  have first: "get_global_configuration V c (process_start env) = (Inr ?x, ?s1)"
    using assms(1) by (simp add: get_global_configuration_unset process_start_def)
  have "calls V (replicate m c) ?s1 = (replicate m (Inr ?x), ?s1)"
    by (rule calls_replicate_set) (simp_all add: isinstance_def issubclass_refl)
  with first have "calls V (replicate n c) (process_start env) = (replicate n (Inr ?x), ?s1)"
    unfolding n by simp
  from run_serial [OF this] show ?thesis
    by simp
qed

theorem serial_first_access_witness:
  "\<exists>d. Configuration_init decimal_validators [] Map.empty = Inr d
     \<and> run decimal_validators [0, 0, 0, 0, 1, 1, 1, 1]
         [AtTest Configuration, AtTest Configuration] (process_start Map.empty)
       = ([Finished (Inr \<lparr>ident = 0, obj_class = Configuration, obj_dict = d\<rparr>),
           Finished (Inr \<lparr>ident = 0, obj_class = Configuration, obj_dict = d\<rparr>)],
          \<lparr>allocated = 1,
           services = Some \<lparr>ident = 0, obj_class = Configuration, obj_dict = d\<rparr>,
           environ = Map.empty\<rparr>)"
proof -
  have two: "serial 2 = [0, 0, 0, 0, 1, 1, 1, 1]"
    by (simp add: serial_def numeral_eq_Suc)
  have ts: "replicate 2 x = [x, x]" for x :: thread
    by (simp add: numeral_eq_Suc)
  from serial_first_access [OF Configuration_init_empty, of 2 decimal_validators Configuration]
  show ?thesis
    unfolding two ts using Configuration_init_empty by simp
qed

text \<open>
  C9 as the spec states it, for any concurrent first access, fails. Two threads make their
  first call, and the second runs the test of line 215 before the first has stored its
  instance: two instances are constructed, and the two callers observe different ones.
\<close>

theorem concurrent_first_access_counterexample:
  "allocated (snd (run decimal_validators [0, 1, 0, 0, 0, 1, 1, 1]
       [AtTest Configuration, AtTest Configuration] (process_start Map.empty))) = 2
   \<and> map_option ident (returned (fst (run decimal_validators [0, 1, 0, 0, 0, 1, 1, 1]
       [AtTest Configuration, AtTest Configuration] (process_start Map.empty)) ! 0)) = Some 0
   \<and> map_option ident (returned (fst (run decimal_validators [0, 1, 0, 0, 0, 1, 1, 1]
       [AtTest Configuration, AtTest Configuration] (process_start Map.empty)) ! 1)) = Some 1"
  by (simp add: process_start_def get_configuration_if_set_def new_def Configuration_init_empty
      set_configuration_def get_and_check_def get_configuration_def isinstance_def)

end
